theory Spec2Isabelle
  imports Complex_Main
begin

section \<open>Configuration, external world and observable events\<close>

text \<open>
  The settings object \<open>CONFIG\<close> of \<open>config.js\<close>, restricted to the fields the
  services read. The nested objects (\<open>git\<close>, \<open>commits\<close>, \<open>schedule\<close>, \<open>backfill\<close>,
  \<open>app\<close>) are flattened, the section name becoming a prefix. The numeric settings come
  from \<open>parseInt\<close> and are integers of either sign.
\<close>

record config =
  git_userName :: string
  git_userEmail :: string
  git_remoteName :: string
  git_branch :: string
  git_repoUrl :: string
  commits_minPerDay :: int
  commits_maxPerDay :: int
  commits_dataFile :: string
  schedule_cron :: string
  schedule_timezone :: string
  backfill_skipWeekends :: bool
  backfill_minCommits :: int
  backfill_maxCommits :: int
  app_dryRun :: bool
  app_retryAttempts :: int
  app_retryDelay :: int

text \<open>
  A point in local civil time, as the getters of a \<open>moment\<close> object show it: the
  calendar day (days since 1970-01-01) and the milliseconds since local midnight.
\<close>

record moment =
  mday :: int
  mms :: nat

text \<open>
  The local time zone, as far as the date arithmetic of the code depends on it: on a day
  when the clocks are put forward (the start of daylight saving time) the local times of
  day from \<open>a\<close> up to, not including, \<open>b\<close> do not exist, and the zone has \<open>Some (a, b)\<close>
  for that day, in milliseconds since midnight; it has \<open>None\<close> for every other day. A
  zone with a fixed offset has \<open>None\<close> for every day. A local time that occurs twice (the
  clocks put back) is one value of \<open>moment\<close> here.
\<close>

type_synonym zone = "int \<Rightarrow> (nat \<times> nat) option"

text \<open>What \<open>moment.format()\<close> prints: the calendar day and the time of day in whole seconds.\<close>

record stamp =
  sday :: int
  ssec :: nat

definition format :: "moment \<Rightarrow> stamp" where
  "format m = \<lparr>sday = mday m, ssec = mms m div 1000\<rparr>"

text \<open>
  The commit message: the caller's string, or the generated
  \<open>chore: contribution <timestamp> [<hash>]\<close>, kept as its two variable parts, or (in
  the pattern script) the date string itself.
\<close>

datatype message = Custom string | Generated stamp nat | Dated stamp

text \<open>The record written to the marker file: \<open>{date, message, timestamp, id}\<close>.\<close>

record payload =
  p_date :: stamp
  p_message :: "message option"
  p_timestamp :: moment
  p_id :: "nat option"

text \<open>
  The primitives of the external collaborators (\<open>simple-git\<close>, \<open>jsonfile\<close>), each with
  the arguments it is called with, and the kind of each call.
\<close>

datatype call =
    WriteFile string payload
  | CheckIsRepo
  | Init
  | AddConfig string string
  | GetRemotes
  | AddRemote string string
  | GitAdd "string list"
  | GitCommit message "stamp option"
  | GitPush "(string \<times> string) option"
  | GitPull string string

datatype prim =
  PWriteFile | PCheckIsRepo | PInit | PAddConfig | PGetRemotes | PAddRemote
  | PAdd | PCommit | PPush | PPull

fun prim_of :: "call \<Rightarrow> prim" where
  "prim_of (WriteFile f d) = PWriteFile"
| "prim_of CheckIsRepo = PCheckIsRepo"
| "prim_of Init = PInit"
| "prim_of (AddConfig k v) = PAddConfig"
| "prim_of GetRemotes = PGetRemotes"
| "prim_of (AddRemote n u) = PAddRemote"
| "prim_of (GitAdd fs) = PAdd"
| "prim_of (GitCommit m d) = PCommit"
| "prim_of (GitPush rb) = PPush"
| "prim_of (GitPull r b) = PPull"

text \<open>A primitive resolves, or rejects with an error whose \<open>message\<close> is the string.\<close>

datatype outcome = Ok | Fail string

datatype level = Debug | Info | Warn | Error

text \<open>
  Everything observable a run does, in order: the primitive calls with their outcome,
  the log lines (level and the fixed part of the text), the console lines of the
  pattern script, and the waits.
\<close>

datatype event =
    Called call outcome
  | Log level string
  | Console string
  | Sleep int

text \<open>
  The world the services run in. \<open>trace\<close> is the history of events; \<open>respond p i\<close> is
  how the \<open>i\<close>-th call of primitive \<open>p\<close> ends, and \<open>calls p\<close> counts the calls made so
  far; \<open>clock\<close> gives the wall clock as a function of the number of events so far
  and \<open>localZone\<close> is the time zone of the process;
  \<open>mathRandom\<close> is the sequence \<open>Math.random()\<close> returns and \<open>drawn\<close> how many were
  drawn; \<open>cryptoRandom\<close> and \<open>cryptoDrawn\<close> do the same for \<open>crypto\<close>; \<open>isRepo\<close> and
  \<open>remotes\<close> are the state of the repository that \<open>checkIsRepo\<close> and \<open>getRemotes\<close>
  report; \<open>initialized\<close> is the field of the \<open>GitService\<close> singleton.
\<close>

record world =
  trace :: "event list"
  respond :: "prim \<Rightarrow> nat \<Rightarrow> outcome"
  calls :: "prim \<Rightarrow> nat"
  clock :: "nat \<Rightarrow> moment"
  localZone :: zone
  mathRandom :: "nat \<Rightarrow> rat"
  drawn :: nat
  cryptoRandom :: "nat \<Rightarrow> nat"
  cryptoDrawn :: nat
  isRepo :: bool
  remotes :: "string list"
  initialized :: bool

definition emit :: "event \<Rightarrow> world \<Rightarrow> world" where
  "emit e w = w\<lparr>trace := trace w @ [e]\<rparr>"

definition logger :: "level \<Rightarrow> string \<Rightarrow> world \<Rightarrow> world" where
  "logger l s w = emit (Log l s) w"

definition console :: "string \<Rightarrow> world \<Rightarrow> world" where
  "console s w = emit (Console s) w"

text \<open>\<open>sleep(ms)\<close>: a timer; nothing but time passes.\<close>

definition sleep :: "int \<Rightarrow> world \<Rightarrow> world" where
  "sleep ms w = emit (Sleep ms) w"

text \<open>\<open>moment()\<close>, \<open>new Date()\<close>, \<open>Date.now()\<close>: the current reading of the clock.\<close>

definition now :: "world \<Rightarrow> moment" where
  "now w = clock w (length (trace w))"

text \<open>\<open>Math.random()\<close>: the next number of the sequence (in \<open>[0, 1)\<close> for a real generator).\<close>

definition random :: "world \<Rightarrow> rat \<times> world" where
  "random w = (mathRandom w (drawn w), w\<lparr>drawn := Suc (drawn w)\<rparr>)"

text \<open>\<open>crypto.randomBytes\<close> and \<open>crypto.randomUUID\<close>: the next value of the other sequence.\<close>

definition crypto :: "world \<Rightarrow> nat \<times> world" where
  "crypto w = (cryptoRandom w (cryptoDrawn w), w\<lparr>cryptoDrawn := Suc (cryptoDrawn w)\<rparr>)"

text \<open>
  One call of a primitive: its outcome is read from \<open>respond\<close>, the call is counted and
  recorded. A successful \<open>init\<close> creates the repository and a successful \<open>addRemote\<close>
  adds the remote.
\<close>

fun settle :: "call \<Rightarrow> world \<Rightarrow> world" where
  "settle Init w = w\<lparr>isRepo := True\<rparr>"
| "settle (AddRemote n u) w = w\<lparr>remotes := remotes w @ [n]\<rparr>"
| "settle c w = w"

definition invoke :: "call \<Rightarrow> world \<Rightarrow> outcome \<times> world" where
  "invoke c w =
     (let p = prim_of c;
          r = respond w p (calls w p);
          w1 = w\<lparr>trace := trace w @ [Called c r], calls := (calls w)(p := Suc (calls w p))\<rparr>
      in (r, if r = Ok then settle c w1 else w1))"

text \<open>
  An asynchronous operation: it returns a value (\<open>Inr\<close>) or throws an error (\<open>Inl\<close>, the
  error's \<open>message\<close>), and leaves a new world.
\<close>

type_synonym 'a io = "world \<Rightarrow> (string + 'a) \<times> world"

definition git :: "call \<Rightarrow> unit io" where
  "git c w = (case invoke c w of (Ok, w') \<Rightarrow> (Inr (), w') | (Fail msg, w') \<Rightarrow> (Inl msg, w'))"

definition andThen :: "'a io \<Rightarrow> ('a \<Rightarrow> 'b io) \<Rightarrow> 'b io" where
  "andThen m f w = (case m w of (Inl e, w') \<Rightarrow> (Inl e, w') | (Inr a, w') \<Rightarrow> f a w')"

definition ret :: "'a \<Rightarrow> 'a io" where
  "ret a w = (Inr a, w)"

definition throw :: "string \<Rightarrow> 'a io" where
  "throw e w = (Inl e, w)"

definition act :: "(world \<Rightarrow> world) \<Rightarrow> unit io" where
  "act f w = (Inr (), f w)"

text \<open>Reading a part of the world (the answer of a query that succeeded).\<close>

definition gets :: "(world \<Rightarrow> 'a) \<Rightarrow> 'a io" where
  "gets f w = (Inr (f w), w)"

text \<open>\<open>try { m } catch (error) { h error }\<close>.\<close>

definition tryCatch :: "'a io \<Rightarrow> (string \<Rightarrow> 'a io) \<Rightarrow> 'a io" where
  "tryCatch m h w = (case m w of (Inl e, w') \<Rightarrow> h e w' | (Inr a, w') \<Rightarrow> (Inr a, w'))"

text \<open>\<open>s.includes(sub)\<close> on strings.\<close>

fun startsWith :: "string \<Rightarrow> string \<Rightarrow> bool" where
  "startsWith s [] = True"
| "startsWith [] (c # cs) = False"
| "startsWith (x # xs) (c # cs) = (x = c \<and> startsWith xs cs)"

fun str_includes :: "string \<Rightarrow> string \<Rightarrow> bool" where
  "str_includes [] sub = (sub = [])"
| "str_includes (x # xs) sub = (startsWith (x # xs) sub \<or> str_includes xs sub)"

section \<open>The Git service (\<open>git-service.js\<close>)\<close>

definition initialize :: "config \<Rightarrow> bool io" where
  "initialize cfg =
     tryCatch
       (andThen (act (logger Info ''Initializing Git service...'')) (\<lambda>_.
        andThen (git CheckIsRepo) (\<lambda>_.
        andThen (gets isRepo) (\<lambda>isRepo.
        andThen (if \<not> isRepo
                 then andThen (act (logger Info ''Initializing new git repository'')) (\<lambda>_. git Init)
                 else ret ()) (\<lambda>_.
        andThen (git (AddConfig ''user.name'' (git_userName cfg))) (\<lambda>_.
        andThen (git (AddConfig ''user.email'' (git_userEmail cfg))) (\<lambda>_.
        andThen (git GetRemotes) (\<lambda>_.
        andThen (gets remotes) (\<lambda>remotes.
        (let hasOrigin = (\<exists>r \<in> set remotes. r = git_remoteName cfg) in
         andThen (if \<not> hasOrigin \<and> git_repoUrl cfg \<noteq> []
                  then andThen (act (logger Info ''Adding remote''))
                         (\<lambda>_. git (AddRemote (git_remoteName cfg) (git_repoUrl cfg)))
                  else ret ()) (\<lambda>_.
         andThen (act (\<lambda>w. w\<lparr>initialized := True\<rparr>)) (\<lambda>_.
         andThen (act (logger Info ''Git service initialized successfully'')) (\<lambda>_.
         ret True)))))))))))))
       (\<lambda>e. andThen (act (logger Error ''Failed to initialize Git service'')) (\<lambda>_. throw e))"

definition ensureInitialized :: "config \<Rightarrow> unit io" where
  "ensureInitialized cfg w =
     (if \<not> initialized w then andThen (initialize cfg) (\<lambda>_. ret ()) w else (Inr (), w))"

definition add :: "config \<Rightarrow> string list \<Rightarrow> unit io" where
  "add cfg files =
     andThen (ensureInitialized cfg) (\<lambda>_.
     tryCatch
       (andThen (git (GitAdd files)) (\<lambda>_. act (logger Debug ''Files staged'')))
       (\<lambda>e. andThen (act (logger Error ''Failed to stage files'')) (\<lambda>_. throw e)))"

text \<open>
  The result of \<open>commit\<close>: the synthetic \<open>{commit: "dry-run", summary: {changes: 0}}\<close>, or
  whatever \<open>simple-git\<close> returns for a commit it made.
\<close>

datatype commitResult = DryRunCommit | GitCommitted

definition commit :: "config \<Rightarrow> message \<Rightarrow> stamp option \<Rightarrow> commitResult io" where
  "commit cfg msg date =
     andThen (ensureInitialized cfg) (\<lambda>_.
     tryCatch
       (if app_dryRun cfg
        then andThen (act (logger Info ''[DRY RUN] Would commit'')) (\<lambda>_. ret DryRunCommit)
        else andThen (git (GitCommit msg date)) (\<lambda>_.
             andThen (act (logger Debug ''Commit created'')) (\<lambda>_. ret GitCommitted)))
       (\<lambda>e. andThen (act (logger Error ''Failed to create commit'')) (\<lambda>_. throw e)))"

text \<open>\<open>options.remote || CONFIG.git.remoteName\<close>: an absent or empty option gives the default.\<close>

record options =
  opt_remote :: "string option"
  opt_branch :: "string option"

definition noOptions :: options where
  "noOptions = \<lparr>opt_remote = None, opt_branch = None\<rparr>"

definition orDefault :: "string option \<Rightarrow> string \<Rightarrow> string" where
  "orDefault v d = (case v of None \<Rightarrow> d | Some s \<Rightarrow> if s = [] then d else s)"

text \<open>
  The result of \<open>push\<close>: \<open>{pushed: true}\<close> of the dry run, the result of \<open>simple-git\<close>,
  \<open>{pushed: false, local: true}\<close>, or \<open>undefined\<close> when the loop ends without a \<open>return\<close>.
\<close>

datatype pushResult = DryPushed | GitPushed | LocalOnly | Undefined

definition remoteAbsent :: "string \<Rightarrow> bool" where
  "remoteAbsent msg \<longleftrightarrow>
     str_includes msg ''does not appear to be a git repository'' \<or>
     str_includes msg ''repository not found'' \<or>
     str_includes msg ''Could not read from remote''"

function pushLoop :: "config \<Rightarrow> options \<Rightarrow> int \<Rightarrow> pushResult io" where
  "pushLoop cfg opts attempt w =
     (if attempt \<le> app_retryAttempts cfg then
        (if app_dryRun cfg
         then (Inr DryPushed, logger Info ''[DRY RUN] Would push to remote'' w)
         else
           (let remote = orDefault (opt_remote opts) (git_remoteName cfg);
                branch = orDefault (opt_branch opts) (git_branch cfg);
                w1 = logger Info ''Pushing to remote'' w
            in case invoke (GitPush (Some (remote, branch))) w1 of
                 (Ok, w2) \<Rightarrow> (Inr GitPushed, logger Info ''Push successful'' w2)
               | (Fail msg, w2) \<Rightarrow>
                   if remoteAbsent msg
                   then (Inr LocalOnly,
                         logger Warn ''Remote repository not available. Commits saved locally.'' w2)
                   else
                     (let w3 = logger Warn ''Push attempt failed'' w2 in
                      if attempt = app_retryAttempts cfg
                      then (Inl msg, logger Error ''All push attempts failed'' w3)
                      else pushLoop cfg opts (attempt + 1) (sleep (app_retryDelay cfg * attempt) w3))))
      else (Inr Undefined, w))"
  by pat_completeness auto
termination
  by (relation "measure (\<lambda>(cfg, opts, attempt, w). nat (app_retryAttempts cfg + 1 - attempt))") auto

declare pushLoop.simps [simp del]

definition push :: "config \<Rightarrow> options \<Rightarrow> pushResult io" where
  "push cfg opts = andThen (ensureInitialized cfg) (\<lambda>_. pushLoop cfg opts 1)"

text \<open>The result of \<open>pull\<close>: the empty object \<open>{}\<close>, or the result of \<open>simple-git\<close>.\<close>

datatype pullResult = EmptyResult | GitPulled

definition recoverablePull :: "string \<Rightarrow> bool" where
  "recoverablePull msg \<longleftrightarrow>
     str_includes msg ''no tracking information'' \<or>
     str_includes msg ''couldn't find remote ref'' \<or>
     str_includes msg ''does not appear to be a git repository'' \<or>
     str_includes msg ''repository not found'' \<or>
     str_includes msg ''unstaged changes'' \<or>
     str_includes msg ''You have unstaged changes''"

definition pull :: "config \<Rightarrow> options \<Rightarrow> pullResult io" where
  "pull cfg opts =
     andThen (ensureInitialized cfg) (\<lambda>_.
     tryCatch
       (let remote = orDefault (opt_remote opts) (git_remoteName cfg);
            branch = orDefault (opt_branch opts) (git_branch cfg)
        in if app_dryRun cfg
           then andThen (act (logger Info ''[DRY RUN] Would pull from remote'')) (\<lambda>_. ret EmptyResult)
           else andThen (git (GitPull remote branch)) (\<lambda>_.
                andThen (act (logger Info ''Pull successful'')) (\<lambda>_. ret GitPulled)))
       (\<lambda>e. if recoverablePull e
            then andThen (act (logger Debug ''Remote not available or local changes, skipping pull''))
                   (\<lambda>_. ret EmptyResult)
            else andThen (act (logger Error ''Failed to pull'')) (\<lambda>_. throw e)))"

section \<open>Dates: the operations of \<open>moment\<close> the code uses\<close>

text \<open>
  The proleptic Gregorian calendar: the day number of a civil date and back (months are
  1 to 12 here).
\<close>

definition daysFromCivil :: "int \<Rightarrow> int \<Rightarrow> int \<Rightarrow> int" where
  "daysFromCivil y m d =
     (let y1 = (if m \<le> 2 then y - 1 else y);
          era = y1 div 400;
          yoe = y1 - era * 400;
          doy = (153 * (if m > 2 then m - 3 else m + 9) + 2) div 5 + d - 1;
          doe = yoe * 365 + yoe div 4 - yoe div 100 + doy
      in era * 146097 + doe - 719468)"

definition civilFromDays :: "int \<Rightarrow> int \<times> int \<times> int" where
  "civilFromDays z =
     (let z1 = z + 719468;
          era = z1 div 146097;
          doe = z1 - era * 146097;
          yoe = (doe - doe div 1460 + doe div 36524 - doe div 146096) div 365;
          doy = doe - (365 * yoe + yoe div 4 - yoe div 100);
          mp = (5 * doy + 2) div 153;
          d = doy - (153 * mp + 2) div 5 + 1;
          m = (if mp < 10 then mp + 3 else mp - 9)
      in (if m \<le> 2 then yoe + era * 400 + 1 else yoe + era * 400, m, d))"

definition isLeapYear :: "int \<Rightarrow> bool" where
  "isLeapYear y \<longleftrightarrow> (y mod 4 = 0 \<and> y mod 100 \<noteq> 0) \<or> y mod 400 = 0"

definition daysInMonth :: "int \<Rightarrow> int \<Rightarrow> int" where
  "daysInMonth y m =
     (if m = 2 then (if isLeapYear y then 29 else 28)
      else if m = 4 \<or> m = 6 \<or> m = 9 \<or> m = 11 then 30 else 31)"

text \<open>A day and a count of milliseconds from its midnight, of either sign, as a moment.\<close>

definition atMillis :: "int \<Rightarrow> int \<Rightarrow> moment" where
  "atMillis d ms = \<lparr>mday = d + ms div 86400000, mms = nat (ms mod 86400000)\<rparr>"

text \<open>
  The setters of \<open>Date\<close> that \<open>moment\<close> calls for a change of a calendar field
  (\<open>setMonth\<close>, \<open>setDate\<close>, \<open>setHours\<close>, \<open>setMinutes\<close>) and the constructor it calls to read
  a date take the new fields as a local time. A local time that the zone skips on that
  day is read with the offset in force before the clocks change, which is the local
  time later by the length of the gap: 02:30 becomes 03:30 where 02:00 to 03:00 is
  skipped. \<open>skippedAt\<close> says that a time of day does not exist on a day.
\<close>

definition skippedAt :: "zone \<Rightarrow> int \<Rightarrow> nat \<Rightarrow> bool" where
  "skippedAt z d ms \<longleftrightarrow> (case z d of None \<Rightarrow> False | Some (a, b) \<Rightarrow> a \<le> ms \<and> ms < b)"

definition resolveLocal :: "zone \<Rightarrow> moment \<Rightarrow> moment" where
  "resolveLocal z t =
     (case z (mday t) of
        None \<Rightarrow> t
      | Some (a, b) \<Rightarrow>
          if a \<le> mms t \<and> mms t < b then atMillis (mday t) (int (mms t) + (int b - int a)) else t)"

text \<open>
  The calendar day \<open>n\<close> years before a day: the same month and day of month, the day of
  month cut to the length of that month (29 February becomes 28 February).
\<close>

definition yearsBefore :: "int \<Rightarrow> int \<Rightarrow> int" where
  "yearsBefore n day =
     (case civilFromDays day of
        (y, m, d) \<Rightarrow> daysFromCivil (y - n) m (min d (daysInMonth (y - n) m)))"

text \<open>
  \<open>subtract(n, "y")\<close>, \<open>add(n, "d")\<close> and \<open>add(n, "w")\<close> move the calendar day and keep the
  time of day, unless the zone skips that time on the day reached; the time moved
  forward then stays with the object in the operations that follow.
\<close>

definition subtractYears :: "zone \<Rightarrow> int \<Rightarrow> moment \<Rightarrow> moment" where
  "subtractYears z n t = resolveLocal z (t\<lparr>mday := yearsBefore n (mday t)\<rparr>)"

definition addDays :: "zone \<Rightarrow> int \<Rightarrow> moment \<Rightarrow> moment" where
  "addDays z n t = resolveLocal z (t\<lparr>mday := mday t + n\<rparr>)"

definition addWeeks :: "zone \<Rightarrow> int \<Rightarrow> moment \<Rightarrow> moment" where
  "addWeeks z n t = addDays z (7 * n) t"

text \<open>
  \<open>add(x, "minutes")\<close>, as a whole number of milliseconds, moves the instant. It is used
  on the clock reading shown in the zone of the schedule (\<open>moment().tz(...)\<close>), and the
  offset of that zone is taken as the same at both instants, at most twelve hours
  apart.
\<close>

definition addMillis :: "int \<Rightarrow> moment \<Rightarrow> moment" where
  "addMillis k t = atMillis (mday t) (int (mms t) + k)"

text \<open>\<open>.hour(h)\<close> and \<open>.minute(m)\<close> set one field; a value out of range carries over.\<close>

definition setHour :: "zone \<Rightarrow> int \<Rightarrow> moment \<Rightarrow> moment" where
  "setHour z h t = resolveLocal z (atMillis (mday t) (h * 3600000 + int (mms t mod 3600000)))"

definition setMinute :: "zone \<Rightarrow> int \<Rightarrow> moment \<Rightarrow> moment" where
  "setMinute z m t =
     resolveLocal z
       (atMillis (mday t) (int (mms t div 3600000) * 3600000 + m * 60000 + int (mms t mod 60000)))"

text \<open>\<open>.day()\<close>: the day of the week, 0 for Sunday to 6 for Saturday (1970-01-01 was a Thursday).\<close>

definition weekday :: "moment \<Rightarrow> int" where
  "weekday t = (mday t + 4) mod 7"

text \<open>
  \<open>isSameOrBefore\<close> compares instants. The two moments compared in the code are local
  times of one zone, each read as its first occurrence, and are in the order of their
  instants.
\<close>

definition isSameOrBefore :: "moment \<Rightarrow> moment \<Rightarrow> bool" where
  "isSameOrBefore a b \<longleftrightarrow> mday a < mday b \<or> (mday a = mday b \<and> mms a \<le> mms b)"

text \<open>
  \<open>moment("YYYY-MM-DD")\<close>: a date without a time is read as the local midnight of that
  day, and as the first time after it when the zone skips midnight on that day.
\<close>

definition momentOfDate :: "zone \<Rightarrow> int \<Rightarrow> moment" where
  "momentOfDate z d = resolveLocal z \<lparr>mday = d, mms = 0\<rparr>"

section \<open>The commit service (\<open>commit-service.js\<close>)\<close>

definition generateCommitMessage :: "moment \<Rightarrow> world \<Rightarrow> message \<times> world" where
  "generateCommitMessage date w = (case crypto w of (hash, w') \<Rightarrow> (Generated (format date) hash, w'))"

text \<open>\<open>Math.floor(Math.random() * (max - min + 1)) + min\<close>.\<close>

definition randomCount :: "int \<Rightarrow> int \<Rightarrow> world \<Rightarrow> int \<times> world" where
  "randomCount mn mx w = (case random w of (r, w') \<Rightarrow> (\<lfloor>r * of_int (mx - mn + 1)\<rfloor> + mn, w'))"

definition getRandomCommitCount :: "config \<Rightarrow> world \<Rightarrow> int \<times> world" where
  "getRandomCommitCount cfg w = randomCount (commits_minPerDay cfg) (commits_maxPerDay cfg) w"

definition writeDataFile :: "config \<Rightarrow> payload \<Rightarrow> unit io" where
  "writeDataFile cfg data = git (WriteFile (commits_dataFile cfg) data)"

text \<open>\<open>message || this.generateCommitMessage(date)\<close>: an absent or empty message is generated.\<close>

definition createCommit :: "config \<Rightarrow> moment \<Rightarrow> string option \<Rightarrow> commitResult io" where
  "createCommit cfg date message w0 =
     (let commitDate = format date;
          (commitMessage, w1) =
             (case message of
                Some s \<Rightarrow> if s \<noteq> [] then (Custom s, w0) else generateCommitMessage date w0
              | None \<Rightarrow> generateCommitMessage date w0);
          (uuid, w2) = crypto w1;
          data = \<lparr>p_date = commitDate, p_message = Some commitMessage,
                  p_timestamp = now w2, p_id = Some uuid\<rparr>
      in tryCatch
           (andThen (writeDataFile cfg data) (\<lambda>_.
            andThen (add cfg [commits_dataFile cfg]) (\<lambda>_.
            andThen (commit cfg commitMessage (Some commitDate)) (\<lambda>result.
            andThen (act (logger Info ''Commit created'')) (\<lambda>_.
            ret result)))))
           (\<lambda>e. andThen (act (logger Error ''Failed to create commit'')) (\<lambda>_. throw e))
           w2)"

text \<open>
  The loop of \<open>createTodayContributions\<close>, by the number of iterations left: a commit at
  \<open>today\<close> plus a random number of minutes below 12 hours; a failure is logged and the
  loop goes on.
\<close>

fun todayLoop :: "config \<Rightarrow> moment \<Rightarrow> nat \<Rightarrow> commitResult list \<Rightarrow> world \<Rightarrow> commitResult list \<times> world" where
  "todayLoop cfg today 0 results w = (results, w)"
| "todayLoop cfg today (Suc k) results w =
     (case random w of (r, w1) \<Rightarrow>
        (let commitTime = addMillis \<lfloor>r * 60 * 12 * 60000\<rfloor> today in
         case createCommit cfg commitTime None w1 of
           (Inr result, w2) \<Rightarrow> todayLoop cfg today k (results @ [result]) (sleep 100 w2)
         | (Inl e, w2) \<Rightarrow> todayLoop cfg today k results (logger Error ''Failed to create commit'' w2)))"

definition createTodayContributions :: "config \<Rightarrow> (commitResult list) io" where
  "createTodayContributions cfg w =
     (let today = now w;
          (commitCount, w1) = getRandomCommitCount cfg w;
          w2 = logger Info ''Creating contributions for today'' w1;
          (results, w3) = todayLoop cfg today (nat commitCount) [] w2
      in (Inr results, w3))"

text \<open>The statistics \<open>backfillContributions\<close> returns.\<close>

record backfillStats =
  totalDays :: nat
  totalCommits :: nat
  skippedDays :: nat
  errors :: nat

text \<open>The third argument of \<open>backfillContributions\<close>; an absent field takes the setting.\<close>

record backfillOptions =
  o_skipWeekends :: "bool option"
  o_minCommits :: "int option"
  o_maxCommits :: "int option"

text \<open>
  The inner loop, by the number of iterations left: a commit at a random hour from 9
  and a random minute of the current day; a failure is counted and the loop goes on.
\<close>

fun backfillDay :: "config \<Rightarrow> zone \<Rightarrow> moment \<Rightarrow> nat \<Rightarrow> backfillStats \<Rightarrow> world \<Rightarrow> backfillStats \<times> world" where
  "backfillDay cfg z current 0 stats w = (stats, w)"
| "backfillDay cfg z current (Suc k) stats w =
     (case random w of (r1, w1) \<Rightarrow>
      case random w1 of (r2, w2) \<Rightarrow>
        (let commitTime = setMinute z \<lfloor>r2 * 60\<rfloor> (setHour z (9 + \<lfloor>r1 * 12\<rfloor>) current) in
         case createCommit cfg commitTime None w2 of
           (Inr result, w3) \<Rightarrow>
             backfillDay cfg z current k (stats\<lparr>totalCommits := totalCommits stats + 1\<rparr>) (sleep 50 w3)
         | (Inl e, w3) \<Rightarrow>
             backfillDay cfg z current k (stats\<lparr>errors := errors stats + 1\<rparr>)
               (logger Error ''Backfill commit failed'' w3)))"

text \<open>The outer loop: \<open>while (current.isSameOrBefore(end))\<close>, one calendar day at a time.\<close>

function backfillLoop ::
  "config \<Rightarrow> zone \<Rightarrow> bool \<Rightarrow> int \<Rightarrow> int \<Rightarrow> moment \<Rightarrow> moment \<Rightarrow> backfillStats \<Rightarrow> world \<Rightarrow>
     backfillStats \<times> world" where
  "backfillLoop cfg z skipWeekends minCommits maxCommits endDate current stats w =
     (if isSameOrBefore current endDate then
        (let dayOfWeek = weekday current;
             isWeekend = (dayOfWeek = 0 \<or> dayOfWeek = 6)
         in if skipWeekends \<and> isWeekend
            then backfillLoop cfg z skipWeekends minCommits maxCommits endDate (addDays z 1 current)
                   (stats\<lparr>skippedDays := skippedDays stats + 1\<rparr>) (logger Debug ''Skipping weekend'' w)
            else
              (case randomCount minCommits maxCommits w of (commitCount, w1) \<Rightarrow>
               case backfillDay cfg z current (nat commitCount) stats (logger Info ''Processing day'' w1) of
                 (stats1, w2) \<Rightarrow>
                   (let stats2 = stats1\<lparr>totalDays := totalDays stats1 + 1\<rparr>;
                        w3 = (if totalDays stats2 mod 7 = 0 then logger Info ''Backfill progress'' w2 else w2)
                    in backfillLoop cfg z skipWeekends minCommits maxCommits endDate (addDays z 1 current) stats2 w3)))
      else (stats, w))"
  by pat_completeness auto
termination
  by (relation "measure (\<lambda>(cfg, z, skip, mn, mx, e, c, s, w). nat (mday e + 1 - mday c))")
     (auto simp: isSameOrBefore_def addDays_def resolveLocal_def atMillis_def
           split: option.splits prod.splits)

declare backfillLoop.simps [simp del]

text \<open>\<open>v ?? d\<close>: the value unless it is absent.\<close>

definition nullish :: "'a option \<Rightarrow> 'a \<Rightarrow> 'a" where
  "nullish v d = (case v of Some x \<Rightarrow> x | None \<Rightarrow> d)"

definition backfillContributions ::
  "config \<Rightarrow> moment \<Rightarrow> moment \<Rightarrow> backfillOptions \<Rightarrow> backfillStats io" where
  "backfillContributions cfg startDate endDate opts w =
     (let skipWeekends = nullish (o_skipWeekends opts) (backfill_skipWeekends cfg);
          minCommits = nullish (o_minCommits opts) (backfill_minCommits cfg);
          maxCommits = nullish (o_maxCommits opts) (backfill_maxCommits cfg);
          w1 = logger Info ''Starting backfill operation'' w;
          stats = \<lparr>totalDays = 0, totalCommits = 0, skippedDays = 0, errors = 0\<rparr>;
          (stats', w2) =
            backfillLoop cfg (localZone w) skipWeekends minCommits maxCommits endDate startDate stats w1
      in (Inr stats', logger Info ''Backfill completed'' w2))"


section \<open>The scheduler (\<open>scheduler.js\<close>)\<close>

record runStats =
  totalRuns :: nat
  successfulRuns :: nat
  failedRuns :: nat

text \<open>
  The fields of the \<open>Scheduler\<close> singleton; \<open>job\<close> holds the cron expression of the
  registered job, or nothing.
\<close>

record scheduler =
  job :: "string option"
  isRunning :: bool
  lastRun :: "moment option"
  nextRun :: "string option"
  stats :: runStats

text \<open>The constructor.\<close>

definition newScheduler :: scheduler where
  "newScheduler =
     \<lparr>job = None, isRunning = False, lastRun = None, nextRun = None,
      stats = \<lparr>totalRuns = 0, successfulRuns = 0, failedRuns = 0\<rparr>\<rparr>"

text \<open>
  \<open>executeTask\<close> in the three pieces the event loop runs it in. \<open>beginTask\<close> is the code
  from the guard to the first \<open>await\<close>; \<open>taskBody\<close> is the awaited sequence of the
  \<open>try\<close> block, during which other callbacks may run; \<open>endTask\<close> is the code after the
  last \<open>await\<close>: the rest of the \<open>try\<close> block or the \<open>catch\<close> block, then \<open>finally\<close>.
\<close>

definition beginTask :: "scheduler \<Rightarrow> world \<Rightarrow> scheduler \<times> world" where
  "beginTask s w =
     (s\<lparr>isRunning := True, lastRun := Some (now w),
        stats := (stats s)\<lparr>totalRuns := totalRuns (stats s) + 1\<rparr>\<rparr>,
      logger Info ''Starting scheduled contribution task'' w)"

definition taskBody :: "config \<Rightarrow> (commitResult list) io" where
  "taskBody cfg =
     andThen (pull cfg noOptions) (\<lambda>_.
     andThen (createTodayContributions cfg) (\<lambda>results.
     andThen (push cfg noOptions) (\<lambda>_.
     ret results)))"

definition endTask :: "string + commitResult list \<Rightarrow> scheduler \<Rightarrow> world \<Rightarrow> scheduler \<times> world" where
  "endTask r s w =
     (case r of
        Inr results \<Rightarrow>
          (s\<lparr>stats := (stats s)\<lparr>successfulRuns := successfulRuns (stats s) + 1\<rparr>, isRunning := False\<rparr>,
           logger Info ''Scheduled task completed successfully'' w)
      | Inl e \<Rightarrow>
          (s\<lparr>stats := (stats s)\<lparr>failedRuns := failedRuns (stats s) + 1\<rparr>, isRunning := False\<rparr>,
           logger Error ''Scheduled task failed'' w))"

text \<open>
  \<open>executeTask\<close>, run to completion. The result is what the returned promise settles
  to: \<open>Inr ()\<close> when it resolves, \<open>Inl\<close> when it rejects.
\<close>

definition executeTask :: "config \<Rightarrow> scheduler \<Rightarrow> world \<Rightarrow> (string + unit) \<times> scheduler \<times> world" where
  "executeTask cfg s w =
     (if isRunning s
      then (Inr (), s, logger Warn ''Task already running, skipping this execution'' w)
      else
        (case beginTask s w of (s1, w1) \<Rightarrow>
         case taskBody cfg w1 of (r, w2) \<Rightarrow>
         case endTask r s1 w2 of (s2, w3) \<Rightarrow> (Inr (), s2, w3)))"

definition runNow :: "config \<Rightarrow> scheduler \<Rightarrow> world \<Rightarrow> (string + unit) \<times> scheduler \<times> world" where
  "runNow cfg s w = executeTask cfg s (logger Info ''Manual task execution triggered'' w)"

definition updateNextRun :: "config \<Rightarrow> scheduler \<Rightarrow> scheduler" where
  "updateNextRun cfg s = s\<lparr>nextRun := Some (''See cron expression: '' @ schedule_cron cfg)\<rparr>"

text \<open>\<open>start\<close>; \<open>validate\<close> stands for \<open>cron.validate\<close> of the \<open>node-cron\<close> library.\<close>

definition start :: "(string \<Rightarrow> bool) \<Rightarrow> config \<Rightarrow> scheduler \<Rightarrow> world \<Rightarrow> (string + unit) \<times> scheduler \<times> world" where
  "start validate cfg s w =
     (if job s \<noteq> None then (Inr (), s, logger Warn ''Scheduler already running'' w)
      else if \<not> validate (schedule_cron cfg)
      then (Inl (''Invalid cron expression: '' @ schedule_cron cfg), s, w)
      else (Inr (),
            updateNextRun cfg (s\<lparr>job := Some (schedule_cron cfg)\<rparr>),
            logger Info ''Scheduler started successfully'' (logger Info ''Starting scheduler'' w)))"

definition stop :: "scheduler \<Rightarrow> world \<Rightarrow> scheduler \<times> world" where
  "stop s w = (if job s \<noteq> None then (s\<lparr>job := None\<rparr>, logger Info ''Scheduler stopped'' w) else (s, w))"

text \<open>
  What can happen to the scheduler between two turns of the event loop: a trigger (a
  cron tick or \<open>runNow\<close>) runs \<open>executeTask\<close> up to its first \<open>await\<close>; the run in
  flight finishes with the result of its awaited sequence; \<open>start\<close>; \<open>stop\<close>.
\<close>

datatype action =
    Trigger world
  | Finish "string + commitResult list" world
  | Start bool config world
  | Stop world

fun step :: "scheduler \<Rightarrow> action \<Rightarrow> scheduler" where
  "step s (Trigger w) = (if isRunning s then s else fst (beginTask s w))"
| "step s (Finish r w) = (if isRunning s then fst (endTask r s w) else s)"
| "step s (Start valid cfg w) = fst (snd (start (\<lambda>c. valid) cfg s w))"
| "step s (Stop w) = fst (stop s w)"

definition after :: "action list \<Rightarrow> scheduler" where
  "after as = foldl step newScheduler as"


section \<open>The pattern script\<close>

text \<open>
  The script's own \<open>CONFIG\<close>. The console lines of the script are kept by their fixed
  text: the glyphs that open them (outside ASCII), the line breaks and the numbers
  printed into them are left out; the two lines for an unknown pattern are kept whole.
\<close>

record scriptConfig =
  s_dataFile :: string
  s_yearsBack :: int
  s_commitsPerCell :: nat

definition CONFIG :: scriptConfig where
  "CONFIG = \<lparr>s_dataFile = ''./data.json'', s_yearsBack = 1, s_commitsPerCell = 5\<rparr>"

type_synonym grid = "int list list"

definition PATTERNS :: "(string \<times> grid) list" where
  "PATTERNS =
    [(''heart'',
       [[0, 1, 1, 0, 0, 1, 1, 0],
        [1, 1, 1, 1, 1, 1, 1, 1],
        [1, 1, 1, 1, 1, 1, 1, 1],
        [1, 1, 1, 1, 1, 1, 1, 1],
        [0, 1, 1, 1, 1, 1, 1, 0],
        [0, 0, 1, 1, 1, 1, 0, 0],
        [0, 0, 0, 1, 1, 0, 0, 0]]),
     (''hi'',
       [[1, 0, 1, 0, 1, 1, 1],
        [1, 0, 1, 0, 0, 1, 0],
        [1, 1, 1, 0, 0, 1, 0],
        [1, 0, 1, 0, 0, 1, 0],
        [1, 0, 1, 0, 0, 1, 0],
        [1, 0, 1, 0, 0, 1, 0],
        [1, 0, 1, 0, 1, 1, 1]]),
     (''smiley'',
       [[0, 0, 1, 1, 1, 1, 0, 0],
        [0, 1, 0, 0, 0, 0, 1, 0],
        [1, 0, 1, 0, 0, 1, 0, 1],
        [1, 0, 0, 0, 0, 0, 0, 1],
        [1, 0, 1, 0, 0, 1, 0, 1],
        [0, 1, 0, 1, 1, 0, 1, 0],
        [0, 0, 1, 1, 1, 1, 0, 0]]),
     (''checkerboard'',
       [[1, 0, 1, 0, 1, 0, 1, 0],
        [0, 1, 0, 1, 0, 1, 0, 1],
        [1, 0, 1, 0, 1, 0, 1, 0],
        [0, 1, 0, 1, 0, 1, 0, 1],
        [1, 0, 1, 0, 1, 0, 1, 0],
        [0, 1, 0, 1, 0, 1, 0, 1],
        [1, 0, 1, 0, 1, 0, 1, 0]]),
     (''wave'',
       [[0, 0, 0, 1, 0, 0, 0, 1],
        [0, 0, 1, 0, 0, 0, 1, 0],
        [0, 1, 0, 0, 0, 1, 0, 0],
        [1, 0, 0, 0, 1, 0, 0, 0],
        [0, 1, 0, 0, 0, 1, 0, 0],
        [0, 0, 1, 0, 0, 0, 1, 0],
        [0, 0, 0, 1, 0, 0, 0, 1]])]"

text \<open>
  \<open>PATTERNS[patternName]\<close> on an object literal (its keys are distinct): an own key
  gives its grid; a name that \<open>Object.prototype\<close> defines gives that inherited member (a
  function or an object, truthy and not an array); any other name gives \<open>undefined\<close>.
\<close>

definition objectPrototypeKeys :: "string list" where
  "objectPrototypeKeys =
     [''constructor'', ''hasOwnProperty'', ''isPrototypeOf'', ''propertyIsEnumerable'',
      ''toLocaleString'', ''toString'', ''valueOf'', ''__proto__'',
      ''__defineGetter__'', ''__defineSetter__'', ''__lookupGetter__'', ''__lookupSetter__'']"

datatype lookup = Found grid | Inherited | Missing

definition property :: "(string \<times> grid) list \<Rightarrow> string \<Rightarrow> lookup" where
  "property patterns name =
     (case map_of patterns name of
        Some g \<Rightarrow> Found g
      | None \<Rightarrow> if name \<in> set objectPrototypeKeys then Inherited else Missing)"

text \<open>\<open>keys.join(", ")\<close>.\<close>

fun join :: "string \<Rightarrow> string list \<Rightarrow> string" where
  "join sep [] = []"
| "join sep [x] = x"
| "join sep (x # y # ys) = x @ sep @ join sep (y # ys)"

text \<open>
  \<open>generateDate\<close> (the same in \<open>index.js\<close> of the first version and in the pattern
  script): \<open>generateDateAt\<close> is the chain of \<open>moment\<close> operations on a given instant in a
  given zone, and \<open>generateDate\<close> applies it to the instant \<open>moment()\<close> reads, in the zone of
  the process.
\<close>

definition generateDateAt :: "scriptConfig \<Rightarrow> zone \<Rightarrow> moment \<Rightarrow> int \<Rightarrow> int \<Rightarrow> stamp" where
  "generateDateAt sc z t weeksBack dayOfWeek =
     format (addDays z dayOfWeek (addWeeks z weeksBack (addDays z 1 (subtractYears z (s_yearsBack sc) t))))"

definition generateDate :: "scriptConfig \<Rightarrow> int \<Rightarrow> int \<Rightarrow> world \<Rightarrow> stamp" where
  "generateDate sc weeksBack dayOfWeek w = generateDateAt sc (localZone w) (now w) weeksBack dayOfWeek"

definition writeData :: "scriptConfig \<Rightarrow> payload \<Rightarrow> unit io" where
  "writeData sc data = git (WriteFile (s_dataFile sc) data)"

text \<open>The script's own \<open>createCommit\<close>; it calls \<open>simple-git\<close> directly.\<close>

definition patternCreateCommit :: "scriptConfig \<Rightarrow> stamp \<Rightarrow> unit io" where
  "patternCreateCommit sc date w =
     (let data = \<lparr>p_date = date, p_message = None, p_timestamp = now w, p_id = None\<rparr>
      in andThen (writeData sc data) (\<lambda>_.
         andThen (git (GitAdd [s_dataFile sc])) (\<lambda>_.
         git (GitCommit (Dated date) (Some date)))) w)"

text \<open>
  A \<open>for\<close> loop over the values of its counter, with the variables it updates as the
  loop state; an error thrown by the body ends the loop.
\<close>

fun forEach :: "'i list \<Rightarrow> ('i \<Rightarrow> 's \<Rightarrow> 's io) \<Rightarrow> 's \<Rightarrow> 's io" where
  "forEach [] body s w = (Inr s, w)"
| "forEach (i # rest) body s w =
     (case body i s w of (Inl e, w') \<Rightarrow> (Inl e, w') | (Inr s', w') \<Rightarrow> forEach rest body s' w')"

text \<open>\<open>pattern[day] && pattern[day][week] === 1\<close>; a read out of range gives \<open>undefined\<close>.\<close>

definition cellOn :: "grid \<Rightarrow> nat \<Rightarrow> nat \<Rightarrow> bool" where
  "cellOn pattern day week \<longleftrightarrow>
     day < length pattern \<and> week < length (pattern ! day) \<and> pattern ! day ! week = 1"

text \<open>The body of the two nested loops of \<open>drawPattern\<close>; the state is \<open>currentCommit\<close>.\<close>

definition drawCell :: "scriptConfig \<Rightarrow> grid \<Rightarrow> int \<Rightarrow> nat \<Rightarrow> nat \<Rightarrow> nat \<Rightarrow> nat io" where
  "drawCell sc pattern startWeek week day currentCommit =
     (if cellOn pattern day week then
        andThen (gets (generateDate sc (startWeek + int week) (int day))) (\<lambda>date.
        andThen (forEach [0..<s_commitsPerCell sc]
                   (\<lambda>i cur. andThen (patternCreateCommit sc date) (\<lambda>_. ret (cur + 1)))
                   currentCommit) (\<lambda>cur.
        andThen (act (console ''Week, Day - commits'')) (\<lambda>_.
        ret cur)))
      else ret currentCommit)"

definition drawPattern :: "scriptConfig \<Rightarrow> (string \<times> grid) list \<Rightarrow> string \<Rightarrow> int \<Rightarrow> unit io" where
  "drawPattern sc patterns patternName startWeek =
     (case property patterns patternName of
        Missing \<Rightarrow>
          andThen (act (console (''Pattern '' @ [CHR 0x22] @ patternName @ [CHR 0x22] @ '' not found!''))) (\<lambda>_.
          andThen (act (console (''Available patterns: '' @ join '', '' (map fst patterns)))) (\<lambda>_.
          ret ()))
      | Inherited \<Rightarrow>
          andThen (act (console (''Drawing pattern: '' @ patternName))) (\<lambda>_.
          andThen (act (console ''Starting at week'')) (\<lambda>_.
          throw ''pattern.flat is not a function''))
      | Found pattern \<Rightarrow>
          andThen (act (console (''Drawing pattern: '' @ patternName))) (\<lambda>_.
          andThen (act (console ''Starting at week'')) (\<lambda>_.
          (let totalCells = length (filter (\<lambda>cell. cell = 1) (concat pattern));
               totalCommits = totalCells * s_commitsPerCell sc
           in case pattern of
                [] \<Rightarrow> throw ''Cannot read properties of undefined (reading 'length')''
              | row0 # _ \<Rightarrow>
                  andThen (forEach [0..<length row0]
                             (\<lambda>week. forEach [0..<7] (\<lambda>day. drawCell sc pattern startWeek week day))
                             0) (\<lambda>currentCommit.
                  act (console ''Total commits created''))))))"

definition pushCommits :: "unit io" where
  "pushCommits =
     andThen (act (console ''Pushing to remote...'')) (\<lambda>_.
     andThen (git (GitPush None)) (\<lambda>_.
     act (console ''Push completed!'')))"

text \<open>
  \<open>main\<close>, from the two command line arguments (the second already read by
  \<open>parseInt\<close>, \<open>None\<close> for \<open>NaN\<close>); the result is the exit code when \<open>process.exit\<close> is
  called.
\<close>

definition main :: "scriptConfig \<Rightarrow> (string \<times> grid) list \<Rightarrow> string option \<Rightarrow> int option \<Rightarrow> world \<Rightarrow> int option \<times> world" where
  "main sc patterns arg2 arg3 w =
     (let patternName = (case arg2 of None \<Rightarrow> ''heart'' | Some s \<Rightarrow> if s = [] then ''heart'' else s);
          startWeek = (case arg3 of None \<Rightarrow> 10 | Some n \<Rightarrow> if n = 0 then 10 else n)
      in case andThen (act (console (replicate 50 (CHR ''='')))) (\<lambda>_.
              andThen (act (console ''   GitHub Contribution Pattern Generator'')) (\<lambda>_.
              andThen (act (console (replicate 50 (CHR ''='')))) (\<lambda>_.
              andThen (act (console (''Available patterns: '' @ join '', '' (map fst patterns)))) (\<lambda>_.
              andThen (act (console ''Usage: npm run pattern <pattern-name> <start-week>'')) (\<lambda>_.
              andThen (drawPattern sc patterns patternName startWeek) (\<lambda>_.
              andThen pushCommits (\<lambda>_.
              act (console ''Done! Check your GitHub profile.'')))))))) w of
           (Inr _, w') \<Rightarrow> (None, w')
         | (Inl e, w') \<Rightarrow> (Some 1, console (''Error: '' @ e) w'))"


section \<open>Observations on traces\<close>

text \<open>The events a call added: the trace of the world after it, without the trace before it.\<close>

definition since :: "world \<Rightarrow> world \<Rightarrow> event list" where
  "since w w' = drop (length (trace w)) (trace w')"

text \<open>The waits of a trace, in order, and the number of \<open>git push\<close> calls in it.\<close>

fun waits :: "event list \<Rightarrow> int list" where
  "waits [] = []"
| "waits (Sleep ms # es) = ms # waits es"
| "waits (e # es) = waits es"

fun pushCalls :: "event list \<Rightarrow> nat" where
  "pushCalls [] = 0"
| "pushCalls (Called (GitPush rb) r # es) = Suc (pushCalls es)"
| "pushCalls (e # es) = pushCalls es"

text \<open>
  \<open>otherFailures w k\<close>: the next \<open>k\<close> calls of \<open>git push\<close> in world \<open>w\<close> all fail, none
  with a message of the remote-absent class.
\<close>

definition otherFailures :: "world \<Rightarrow> nat \<Rightarrow> bool" where
  "otherFailures w k \<longleftrightarrow>
     (\<forall>i<k. \<exists>m. respond w PPush (calls w PPush + i) = Fail m \<and> \<not> remoteAbsent m)"

text \<open>
  The phase of a run an event belongs to: the pull, the creation of a commit (the write
  of the marker file, the staging, the commit), the push; other events have none.
\<close>

datatype phase = Pulling | Committing | Pushing

fun phaseOf :: "event \<Rightarrow> phase option" where
  "phaseOf (Called (GitPull r b) x) = Some Pulling"
| "phaseOf (Called (WriteFile f d) x) = Some Committing"
| "phaseOf (Called (GitAdd fs) x) = Some Committing"
| "phaseOf (Called (GitCommit m d) x) = Some Committing"
| "phaseOf (Called (GitPush rb) x) = Some Pushing"
| "phaseOf e = None"

fun rank :: "phase \<Rightarrow> nat" where
  "rank Pulling = 0"
| "rank Committing = 1"
| "rank Pushing = 2"

definition phases :: "event list \<Rightarrow> phase list" where
  "phases tr = List.map_filter phaseOf tr"

text \<open>The dates of the commits a trace created, in order, and the payloads it wrote.\<close>

fun commitDates :: "event list \<Rightarrow> stamp list" where
  "commitDates [] = []"
| "commitDates (Called (GitCommit m (Some d)) Ok # es) = d # commitDates es"
| "commitDates (e # es) = commitDates es"

fun written :: "event list \<Rightarrow> payload list" where
  "written [] = []"
| "written (Called (WriteFile f d) x # es) = d # written es"
| "written (e # es) = written es"

text \<open>The primitive calls of a trace, without the log lines and the waits.\<close>

fun primitives :: "event list \<Rightarrow> call list" where
  "primitives [] = []"
| "primitives (Called c x # es) = c # primitives es"
| "primitives (e # es) = primitives es"

text \<open>Every primitive succeeds; every random number is in \<open>[0, 1)\<close>.\<close>

definition allOk :: "world \<Rightarrow> bool" where
  "allOk w \<longleftrightarrow> (\<forall>p i. respond w p i = Ok)"

definition unitRandoms :: "world \<Rightarrow> bool" where
  "unitRandoms w \<longleftrightarrow> (\<forall>i. 0 \<le> mathRandom w i \<and> mathRandom w i < 1)"

text \<open>
  \<open>extends P w w'\<close>: the world \<open>w'\<close> comes after \<open>w\<close>: its trace is that of \<open>w\<close> with
  events of kind \<open>P\<close> added, and the behaviour of the environment is the same.
\<close>

definition extends :: "(event \<Rightarrow> bool) \<Rightarrow> world \<Rightarrow> world \<Rightarrow> bool" where
  "extends P w w' \<longleftrightarrow>
     (\<exists>d. trace w' = trace w @ d \<and> list_all P d) \<and>
     respond w' = respond w \<and> clock w' = clock w \<and> localZone w' = localZone w \<and>
     mathRandom w' = mathRandom w"

definition frame :: "(event \<Rightarrow> bool) \<Rightarrow> 'a io \<Rightarrow> bool" where
  "frame P m \<longleftrightarrow> (\<forall>w. extends P w (snd (m w)))"

definition steady :: "(event \<Rightarrow> bool) \<Rightarrow> 'a io \<Rightarrow> bool" where
  "steady P m \<longleftrightarrow> frame P m \<and> (\<forall>w. allOk w \<longrightarrow> (\<exists>a. fst (m w) = Inr a))"


text \<open>Events outside the three phases; events outside the phases or in a given one.\<close>

definition quiet :: "event \<Rightarrow> bool" where
  "quiet e \<longleftrightarrow> phaseOf e = None"

definition inPhase :: "phase \<Rightarrow> event \<Rightarrow> bool" where
  "inPhase ph e \<longleftrightarrow> phaseOf e = None \<or> phaseOf e = Some ph"

text \<open>Saturday or Sunday, of a day number.\<close>

definition weekendDay :: "int \<Rightarrow> bool" where
  "weekendDay d \<longleftrightarrow> (d + 4) mod 7 = 0 \<or> (d + 4) mod 7 = 6"

text \<open>
  The on-cells of a grid in column-major order, as pairs of week and day: the weeks of
  row 0 in ascending order and, in each week, the days 0 to 6 in ascending order.
\<close>

definition onCells :: "grid \<Rightarrow> (nat \<times> nat) list" where
  "onCells pattern =
     filter (\<lambda>(week, d). cellOn pattern d week)
       (concat (map (\<lambda>week. map (\<lambda>d. (week, d)) [0..<7]) [0..<length (hd pattern)]))"

text \<open>A pattern grid: seven rows of one length.\<close>

definition patternGrid :: "grid \<Rightarrow> bool" where
  "patternGrid pattern \<longleftrightarrow>
     length pattern = 7 \<and> (\<forall>row \<in> set pattern. length row = length (hd pattern))"

text \<open>The calendar day an event commits or writes for, and the events that have no other day.\<close>

fun eventDay :: "event \<Rightarrow> int option" where
  "eventDay (Called (GitCommit m (Some dt)) x) = Some (sday dt)"
| "eventDay (Called (WriteFile f p) x) = Some (sday (p_date p))"
| "eventDay e = None"

definition onDay :: "int \<Rightarrow> event \<Rightarrow> bool" where
  "onDay d e \<longleftrightarrow> eventDay e = None \<or> eventDay e = Some d"

definition offWeekend :: "event \<Rightarrow> bool" where
  "offWeekend e \<longleftrightarrow> (\<forall>d. eventDay e = Some d \<longrightarrow> \<not> weekendDay d)"

text \<open>
  The scheduler \<open>s\<close> after a run that began in world \<open>w\<close>: not running, \<open>lastRun\<close> the
  time the run began, one more total run and the given increments of the other counters.
\<close>

definition ranTo :: "scheduler \<Rightarrow> world \<Rightarrow> nat \<Rightarrow> nat \<Rightarrow> scheduler" where
  "ranTo s w ok bad =
     s\<lparr>isRunning := False, lastRun := Some (now w),
       stats := \<lparr>totalRuns = totalRuns (stats s) + 1,
                 successfulRuns = successfulRuns (stats s) + ok,
                 failedRuns = failedRuns (stats s) + bad\<rparr>\<rparr>"

text \<open>
  The events of a backfill: outside the phases or part of a commit creation and, when
  weekends are skipped, for no Saturday or Sunday.
\<close>

definition bfKind :: "bool \<Rightarrow> event \<Rightarrow> bool" where
  "bfKind skip e \<longleftrightarrow> inPhase Committing e \<and> (skip \<longrightarrow> offWeekend e)"

text \<open>The column-major order on cells (pairs of week and day).\<close>

definition columnMajor :: "nat \<times> nat \<Rightarrow> nat \<times> nat \<Rightarrow> bool" where
  "columnMajor a b \<longleftrightarrow> fst a < fst b \<or> (fst a = fst b \<and> snd a < snd b)"

text \<open>
  A time of day that the zone skips on no day; a zone that skips no local time on the
  days \<open>s\<close> and \<open>e\<close> and on the days between them.
\<close>

definition neverSkipped :: "zone \<Rightarrow> nat \<Rightarrow> bool" where
  "neverSkipped z ms \<longleftrightarrow> (\<forall>d. \<not> skippedAt z d ms)"

definition plainDays :: "zone \<Rightarrow> int \<Rightarrow> int \<Rightarrow> bool" where
  "plainDays z s e \<longleftrightarrow> z s = None \<and> z e = None \<and> (\<forall>d. s \<le> d \<and> d \<le> e \<longrightarrow> z d = None)"


section \<open>Concrete inputs\<close>

text \<open>
  The defaults of \<open>config.js\<close>; a world with the Git service initialized, an empty
  trace, the given responses, clock and random numbers and a time zone with a fixed
  offset; a clock stopped at noon; and
  a remote whose second answer is that the repository does not exist.
\<close>

definition defaultConfig :: config where
  "defaultConfig =
     \<lparr>git_userName = ''GitHub Contributor'', git_userEmail = ''contributor@example.com'',
      git_remoteName = ''origin'', git_branch = ''main'', git_repoUrl = [],
      commits_minPerDay = 1, commits_maxPerDay = 5, commits_dataFile = ''data.json'',
      schedule_cron = ''0 9 * * *'', schedule_timezone = ''UTC'',
      backfill_skipWeekends = False, backfill_minCommits = 1, backfill_maxCommits = 8,
      app_dryRun = False, app_retryAttempts = 3, app_retryDelay = 1000\<rparr>"

definition ready :: "(prim \<Rightarrow> nat \<Rightarrow> outcome) \<Rightarrow> (nat \<Rightarrow> moment) \<Rightarrow> (nat \<Rightarrow> rat) \<Rightarrow> world" where
  "ready r c m =
     \<lparr>trace = [], respond = r, calls = (\<lambda>p. 0), clock = c, localZone = (\<lambda>d. None),
      mathRandom = m, drawn = 0,
      cryptoRandom = (\<lambda>i. i), cryptoDrawn = 0, isRepo = True, remotes = [''origin''],
      initialized = True\<rparr>"

definition noon :: "nat \<Rightarrow> moment" where
  "noon i = \<lparr>mday = 20000, mms = 43200000\<rparr>"

definition flaky :: "prim \<Rightarrow> nat \<Rightarrow> outcome" where
  "flaky p i = (if i = 1 then Fail ''fatal: repository not found'' else Fail ''timeout'')"

text \<open>
  A world where everything succeeds, at a clock stopped at the given time of a fixed day;
  the configuration of a dry run; a scheduler in the middle of a run.
\<close>

definition stopped :: "nat \<Rightarrow> nat \<Rightarrow> moment" where
  "stopped ms i = \<lparr>mday = 20000, mms = ms\<rparr>"

definition allSucceed :: "prim \<Rightarrow> nat \<Rightarrow> outcome" where
  "allSucceed p i = Ok"

definition allFail :: "prim \<Rightarrow> nat \<Rightarrow> outcome" where
  "allFail p i = Fail ''timeout''"

definition zeros :: "nat \<Rightarrow> rat" where
  "zeros i = 0"

definition quietWorld :: world where
  "quietWorld = ready allSucceed (stopped 5000) zeros"

definition laterWorld :: world where
  "laterWorld = ready allSucceed (stopped 6000) zeros"

definition brokenWorld :: world where
  "brokenWorld = ready allFail (stopped 5000) zeros"

definition dryConfig :: config where
  "dryConfig = defaultConfig\<lparr>app_dryRun := True\<rparr>"

definition busyScheduler :: scheduler where
  "busyScheduler = newScheduler\<lparr>isRunning := True\<rparr>"

text \<open>A remote that answers every push with a timeout, everything else succeeding.\<close>

definition pushDown :: "prim \<Rightarrow> nat \<Rightarrow> outcome" where
  "pushDown p i = (if p = PPush then Fail ''timeout'' else Ok)"

definition offlineWorld :: world where
  "offlineWorld = ready pushDown (stopped 5000) zeros"

text \<open>
  The options of the example of a backfill: two commits a day and no weekend skipped;
  the same with weekends skipped.
\<close>

definition twoADay :: backfillOptions where
  "twoADay = \<lparr>o_skipWeekends = Some False, o_minCommits = Some 2, o_maxCommits = Some 2\<rparr>"

definition twoAWeekday :: backfillOptions where
  "twoAWeekday = \<lparr>o_skipWeekends = Some True, o_minCommits = Some 2, o_maxCommits = Some 2\<rparr>"

text \<open>
  A table with one pattern of a single column whose only on-cell is Sunday of week 0,
  and the script's settings with three commits per cell.
\<close>

definition dot :: grid where
  "dot = [[1], [0], [0], [0], [0], [0], [0]]"

definition dotTable :: "(string \<times> grid) list" where
  "dotTable = [(''dot'', dot)]"

definition threePerCell :: scriptConfig where
  "threePerCell = CONFIG\<lparr>s_commitsPerCell := 3\<rparr>"

text \<open>
  Two zones that put the clocks forward by an hour: at midnight of 2024-04-26 (day
  19839), as in Cairo, and at 02:00 of 2023-03-12 (day 19428), as in New York. A world
  in the first zone where everything succeeds, with the clock stopped at noon.
\<close>

definition midnightGap :: zone where
  "midnightGap d = (if d = 19839 then Some (0, 3600000) else None)"

definition nightGap :: zone where
  "nightGap d = (if d = 19428 then Some (7200000, 10800000) else None)"

definition gapWorld :: world where
  "gapWorld = (ready allSucceed noon zeros)\<lparr>localZone := midnightGap\<rparr>"


section \<open>How the operations extend the trace\<close>

lemma extends_refl: "extends P w w"
  by (simp add: extends_def)

lemma extends_trans: "extends P w w1 \<Longrightarrow> extends P w1 w2 \<Longrightarrow> extends P w w2"
  by (auto simp: extends_def)

lemma extends_mono: "extends P w w' \<Longrightarrow> (\<And>e. P e \<Longrightarrow> Q e) \<Longrightarrow> extends Q w w'"
  by (auto simp: extends_def list_all_iff)

lemma extends_emit: "P e \<Longrightarrow> extends P w (emit e w)"
  by (simp add: extends_def emit_def)

lemma extends_invoke: "(\<And>x. P (Called c x)) \<Longrightarrow> extends P w (snd (invoke c w))"
  by (cases c) (simp_all add: extends_def invoke_def Let_def)

lemma extends_random: "extends P w (snd (random w))"
  by (simp add: extends_def random_def)

lemma extends_crypto: "extends P w (snd (crypto w))"
  by (simp add: extends_def crypto_def)

lemma extends_allOk: "extends P w w' \<Longrightarrow> allOk w' = allOk w"
  by (simp add: extends_def allOk_def)

lemma extends_unitRandoms: "extends P w w' \<Longrightarrow> unitRandoms w' = unitRandoms w"
  by (simp add: extends_def unitRandoms_def)

lemma frameI: "(\<And>w. extends P w (snd (m w))) \<Longrightarrow> frame P m"
  by (simp add: frame_def)

lemma frameD: "frame P m \<Longrightarrow> extends P w (snd (m w))"
  by (simp add: frame_def)

lemma frame_ret: "frame P (ret a)"
  by (simp add: frame_def ret_def extends_refl)

lemma frame_throw: "frame P (throw e)"
  by (simp add: frame_def throw_def extends_refl)

lemma frame_gets: "frame P (gets f)"
  by (simp add: frame_def gets_def extends_refl)

lemma frame_log: "P (Log l s) \<Longrightarrow> frame P (act (logger l s))"
  by (simp add: frame_def act_def logger_def extends_emit)

lemma frame_console: "P (Console s) \<Longrightarrow> frame P (act (console s))"
  by (simp add: frame_def act_def console_def extends_emit)

lemma frame_sleep: "P (Sleep n) \<Longrightarrow> frame P (act (sleep n))"
  by (simp add: frame_def act_def sleep_def extends_emit)

lemma frame_setInit: "frame P (act (\<lambda>w. w\<lparr>initialized := b\<rparr>))"
  by (simp add: frame_def act_def extends_def)

lemma frame_git: "(\<And>x. P (Called c x)) \<Longrightarrow> frame P (git c)"
  unfolding frame_def git_def
proof
  fix w assume h: "\<And>x. P (Called c x)"
  have "extends P w (snd (invoke c w))" using h by (rule extends_invoke)
  then show "extends P w (snd (case invoke c w of (Ok, w') \<Rightarrow> (Inr (), w') | (Fail msg, w') \<Rightarrow> (Inl msg, w')))"
    by (cases "invoke c w") (auto split: outcome.splits)
qed

lemma frame_andThen: "frame P m \<Longrightarrow> (\<And>a. frame P (f a)) \<Longrightarrow> frame P (andThen m f)"
  unfolding frame_def andThen_def
  by (auto split: prod.splits sum.splits intro: extends_trans)
     (metis extends_trans snd_conv)+

lemma frame_tryCatch: "frame P m \<Longrightarrow> (\<And>e. frame P (h e)) \<Longrightarrow> frame P (tryCatch m h)"
  unfolding frame_def tryCatch_def
  by (auto split: prod.splits sum.splits intro: extends_trans)
     (metis extends_trans snd_conv)+

lemma frame_if: "(c \<Longrightarrow> frame P a) \<Longrightarrow> (\<not> c \<Longrightarrow> frame P b) \<Longrightarrow> frame P (if c then a else b)"
  by simp

lemma steadyI: "frame P m \<Longrightarrow> (\<And>w. allOk w \<Longrightarrow> \<exists>a. fst (m w) = Inr a) \<Longrightarrow> steady P m"
  by (simp add: steady_def)

lemma steady_frame: "steady P m \<Longrightarrow> frame P m"
  by (simp add: steady_def)

lemma steady_ok: "steady P m \<Longrightarrow> allOk w \<Longrightarrow> \<exists>a. fst (m w) = Inr a"
  by (simp add: steady_def)

lemma steady_ret: "steady P (ret a)"
  by (simp add: steady_def frame_ret) (simp add: ret_def)

lemma steady_gets: "steady P (gets f)"
  by (simp add: steady_def frame_gets) (simp add: gets_def)

lemma steady_log: "P (Log l s) \<Longrightarrow> steady P (act (logger l s))"
  by (simp add: steady_def frame_log) (simp add: act_def)

lemma steady_console: "P (Console s) \<Longrightarrow> steady P (act (console s))"
  by (simp add: steady_def frame_console) (simp add: act_def)

lemma steady_setInit: "steady P (act (\<lambda>w. w\<lparr>initialized := b\<rparr>))"
  by (simp add: steady_def frame_setInit) (simp add: act_def)

lemma steady_git: "(\<And>x. P (Called c x)) \<Longrightarrow> steady P (git c)"
  by (rule steadyI) (auto simp: frame_git git_def invoke_def Let_def allOk_def)

lemma steady_andThen:
  assumes "steady P m" and "\<And>a. steady P (f a)"
  shows "steady P (andThen m f)"
proof (rule steadyI)
  show "frame P (andThen m f)"
    using assms by (intro frame_andThen) (simp_all add: steady_frame)
next
  fix w assume ok: "allOk w"
  from steady_ok [OF assms(1) ok] obtain a where a: "fst (m w) = Inr a" by blast
  have "extends P w (snd (m w))" using assms(1) by (intro frameD steady_frame)
  then have "allOk (snd (m w))" using ok by (simp add: extends_allOk)
  from steady_ok [OF assms(2) this] obtain b where "fst (f a (snd (m w))) = Inr b" by blast
  with a show "\<exists>b. fst (andThen m f w) = Inr b"
    by (cases "m w") (simp add: andThen_def)
qed

lemma steady_tryCatch:
  assumes "steady P m" and "\<And>e. frame P (h e)"
  shows "steady P (tryCatch m h)"
proof (rule steadyI)
  show "frame P (tryCatch m h)"
    using assms by (intro frame_tryCatch) (simp_all add: steady_frame)
next
  fix w assume ok: "allOk w"
  from steady_ok [OF assms(1) ok] obtain a where a: "fst (m w) = Inr a" by blast
  then show "\<exists>b. fst (tryCatch m h w) = Inr b"
    by (cases "m w") (simp add: tryCatch_def)
qed

lemma steady_if: "(c \<Longrightarrow> steady P a) \<Longrightarrow> (\<not> c \<Longrightarrow> steady P b) \<Longrightarrow> steady P (if c then a else b)"
  by simp

lemma steady_initialize: "(\<And>e. quiet e \<Longrightarrow> P e) \<Longrightarrow> steady P (initialize cfg)"
  unfolding initialize_def Let_def
  by (intro steady_tryCatch steady_andThen steady_if steady_log steady_git steady_gets
        steady_ret steady_setInit frame_andThen frame_log frame_throw)
     (simp_all add: quiet_def)

lemma steady_ensureInitialized: "(\<And>e. quiet e \<Longrightarrow> P e) \<Longrightarrow> steady P (ensureInitialized cfg)"
proof -
  assume h: "\<And>e. quiet e \<Longrightarrow> P e"
  have "steady P (andThen (initialize cfg) (\<lambda>_. ret ()))"
    by (intro steady_andThen steady_initialize steady_ret h)
  then show ?thesis
    unfolding steady_def frame_def ensureInitialized_def
    by (auto simp: extends_refl)
qed

section \<open>The phases of the services\<close>

lemma quiet_inPhase: "quiet e \<Longrightarrow> inPhase ph e"
  by (simp add: quiet_def inPhase_def)

lemma frame_ensureInitialized: "(\<And>e. quiet e \<Longrightarrow> P e) \<Longrightarrow> frame P (ensureInitialized cfg)"
  by (rule steady_frame) (rule steady_ensureInitialized)

lemma steady_add:
  assumes "\<And>e. quiet e \<Longrightarrow> P e" and "\<And>x. P (Called (GitAdd files) x)"
  shows "steady P (add cfg files)"
  unfolding add_def
  by (intro steady_andThen steady_tryCatch steady_ensureInitialized steady_git steady_log
        frame_andThen frame_log frame_throw assms)
     (simp_all add: assms quiet_def)

lemma steady_commit:
  assumes "\<And>e. quiet e \<Longrightarrow> P e" and "\<And>x. P (Called (GitCommit msg date) x)"
  shows "steady P (commit cfg msg date)"
  unfolding commit_def
  by (intro steady_andThen steady_tryCatch steady_ensureInitialized steady_git steady_log
        steady_if steady_ret frame_andThen frame_log frame_throw assms)
     (simp_all add: assms quiet_def)

lemma steady_pull: "steady (inPhase Pulling) (pull cfg opts)"
  unfolding pull_def Let_def
  by (intro steady_andThen steady_tryCatch steady_ensureInitialized steady_git steady_log
        steady_if steady_ret frame_andThen frame_log frame_throw frame_if frame_ret)
     (simp_all add: quiet_def inPhase_def)

lemma extends_logger: "P (Log l s) \<Longrightarrow> extends P w (logger l s w)"
  by (simp add: logger_def extends_emit)

lemma extends_sleep: "P (Sleep n) \<Longrightarrow> extends P w (sleep n w)"
  by (simp add: sleep_def extends_emit)

lemma extends_pushLoop: "extends (inPhase Pushing) w (snd (pushLoop cfg opts a w))"
proof (induction "nat (app_retryAttempts cfg + 1 - a)" arbitrary: a w)
  case 0
  then have "pushLoop cfg opts a w = (Inr Undefined, w)"
    by (subst pushLoop.simps) simp
  then show ?case by (simp add: extends_refl)
next
  case (Suc n)
  then have le: "a \<le> app_retryAttempts cfg" by linarith
  let ?c = "GitPush (Some (orDefault (opt_remote opts) (git_remoteName cfg), orDefault (opt_branch opts) (git_branch cfg)))"
  let ?w1 = "logger Info ''Pushing to remote'' w"
  have lg: "extends (inPhase Pushing) u (logger l s u)" for u l s
    by (rule extends_logger) (simp add: inPhase_def)
  have sl: "extends (inPhase Pushing) u (sleep k u)" for u k
    by (rule extends_sleep) (simp add: inPhase_def)
  have e2: "extends (inPhase Pushing) ?w1 (snd (invoke ?c ?w1))"
    by (rule extends_invoke) (simp add: inPhase_def)
  show ?case
  proof (cases "app_dryRun cfg")
    case True
    then have "pushLoop cfg opts a w = (Inr DryPushed, logger Info ''[DRY RUN] Would push to remote'' w)"
      using le by (subst pushLoop.simps) simp
    then show ?thesis by (simp add: lg)
  next
    case False
    note nd = False
    obtain r w2 where Pair: "invoke ?c ?w1 = (r, w2)" by (cases "invoke ?c ?w1")
    then have e12: "extends (inPhase Pushing) w w2"
      using lg [of w] e2 by (auto intro: extends_trans)
    show ?thesis
    proof (cases r)
      case Ok
      have "pushLoop cfg opts a w = (Inr GitPushed, logger Info ''Push successful'' w2)"
        using le nd Pair Ok by (subst pushLoop.simps) (simp add: Let_def)
      then show ?thesis
        using e12 lg [of w2] by (auto intro: extends_trans)
    next
      case (Fail msg)
      let ?w3 = "logger Warn ''Push attempt failed'' w2"
      let ?w4 = "sleep (app_retryDelay cfg * a) ?w3"
      have e3: "extends (inPhase Pushing) w ?w3"
        using e12 lg [of w2] by (blast intro: extends_trans)
      show ?thesis
      proof (cases "remoteAbsent msg")
        case True
        have "pushLoop cfg opts a w =
            (Inr LocalOnly, logger Warn ''Remote repository not available. Commits saved locally.'' w2)"
          using le nd Pair Fail True by (subst pushLoop.simps) (simp add: Let_def)
        then show ?thesis
          using e12 lg [of w2] by (auto intro: extends_trans)
      next
        case False
        note nra = False
        show ?thesis
        proof (cases "a = app_retryAttempts cfg")
          case True
          have "pushLoop cfg opts a w = (Inl msg, logger Error ''All push attempts failed'' ?w3)"
            using le nd Pair Fail True nra by (subst pushLoop.simps) (simp add: Let_def)
          then show ?thesis
            using e3 lg [of ?w3] by (auto intro: extends_trans)
        next
          case False
          have "n = nat (app_retryAttempts cfg + 1 - (a + 1))" using Suc.hyps(2) by linarith
          then have ih: "extends (inPhase Pushing) ?w4 (snd (pushLoop cfg opts (a + 1) ?w4))"
            by (rule Suc.hyps(1))
          have "extends (inPhase Pushing) w ?w4"
            using e3 sl [of ?w3] by (blast intro: extends_trans)
          with ih have "extends (inPhase Pushing) w (snd (pushLoop cfg opts (a + 1) ?w4))"
            by (blast intro: extends_trans)
          moreover have "pushLoop cfg opts a w = pushLoop cfg opts (a + 1) ?w4"
            using le nd False nra Pair Fail by (subst pushLoop.simps) (simp add: Let_def)
          ultimately show ?thesis by simp
        qed
      qed
    qed
  qed
qed

lemma frame_push: "frame (inPhase Pushing) (push cfg opts)"
  unfolding push_def
  by (intro frame_andThen frame_ensureInitialized quiet_inPhase frameI extends_pushLoop)


lemma quiet_onDay: "quiet e \<Longrightarrow> onDay d e"
  by (cases e rule: eventDay.cases) (simp_all add: quiet_def onDay_def)

lemma createCommit_split:
  "\<exists>m w2. extends P w w2 \<and>
     createCommit cfg date msg w =
       tryCatch
         (andThen (writeDataFile cfg \<lparr>p_date = format date, p_message = Some m,
                      p_timestamp = now w2, p_id = Some (fst (crypto (snd (
                        case msg of Some s \<Rightarrow> if s \<noteq> [] then (Custom s, w) else generateCommitMessage date w
                        | None \<Rightarrow> generateCommitMessage date w))))\<rparr>) (\<lambda>_.
          andThen (add cfg [commits_dataFile cfg]) (\<lambda>_.
          andThen (commit cfg m (Some (format date))) (\<lambda>result.
          andThen (act (logger Info ''Commit created'')) (\<lambda>_.
          ret result)))))
         (\<lambda>e. andThen (act (logger Error ''Failed to create commit'')) (\<lambda>_. throw e))
         w2"
proof -
  obtain m w1 where m: "(case msg of Some s \<Rightarrow> if s \<noteq> [] then (Custom s, w) else generateCommitMessage date w
                        | None \<Rightarrow> generateCommitMessage date w) = (m, w1)"
    by (cases "(case msg of Some s \<Rightarrow> if s \<noteq> [] then (Custom s, w) else generateCommitMessage date w
                        | None \<Rightarrow> generateCommitMessage date w)")
  have e1: "extends P w w1"
    using m extends_crypto [of P w]
    by (auto simp: generateCommitMessage_def extends_refl split: option.splits if_splits prod.splits)
  obtain u w2 where u: "crypto w1 = (u, w2)" by (cases "crypto w1")
  have e2: "extends P w1 w2" using u extends_crypto [of P w1] by simp
  have "extends P w w2" using e1 e2 by (rule extends_trans)
  moreover have "createCommit cfg date msg w =
       tryCatch
         (andThen (writeDataFile cfg \<lparr>p_date = format date, p_message = Some m,
                      p_timestamp = now w2, p_id = Some (fst (crypto (snd (
                        case msg of Some s \<Rightarrow> if s \<noteq> [] then (Custom s, w) else generateCommitMessage date w
                        | None \<Rightarrow> generateCommitMessage date w))))\<rparr>) (\<lambda>_.
          andThen (add cfg [commits_dataFile cfg]) (\<lambda>_.
          andThen (commit cfg m (Some (format date))) (\<lambda>result.
          andThen (act (logger Info ''Commit created'')) (\<lambda>_.
          ret result)))))
         (\<lambda>e. andThen (act (logger Error ''Failed to create commit'')) (\<lambda>_. throw e))
         w2"
    unfolding createCommit_def Let_def m using u by simp
  ultimately show ?thesis by blast
qed

lemma steady_createCommit_body:
  assumes "\<And>e. inPhase Committing e \<Longrightarrow> onDay (mday date) e \<Longrightarrow> P e"
  shows "steady P
         (tryCatch
         (andThen (writeDataFile cfg \<lparr>p_date = format date, p_message = Some m,
                      p_timestamp = t, p_id = Some u\<rparr>) (\<lambda>_.
          andThen (add cfg [commits_dataFile cfg]) (\<lambda>_.
          andThen (commit cfg m (Some (format date))) (\<lambda>result.
          andThen (act (logger Info ''Commit created'')) (\<lambda>_.
          ret result)))))
         (\<lambda>e. andThen (act (logger Error ''Failed to create commit'')) (\<lambda>_. throw e)))"
proof -
  have q: "quiet e \<Longrightarrow> P e" for e
    by (rule assms) (simp_all add: quiet_inPhase quiet_onDay)
  have p: "P e" if "phaseOf e = Some Committing" "eventDay e = None \<or> eventDay e = Some (mday date)" for e
    using that by (intro assms) (simp_all add: inPhase_def onDay_def)
  show ?thesis
    unfolding writeDataFile_def
    by (intro steady_tryCatch steady_andThen steady_git steady_add steady_commit steady_log
          steady_ret frame_andThen frame_log frame_throw q p)
       (simp_all add: format_def q quiet_def)
qed

lemma extends_createCommit:
  assumes "\<And>e. inPhase Committing e \<Longrightarrow> onDay (mday date) e \<Longrightarrow> P e"
  shows "extends P w (snd (createCommit cfg date msg w))"
proof -
  from createCommit_split [of P w cfg date msg] obtain m w2 u where
    e: "extends P w w2" and
    c: "createCommit cfg date msg w =
       tryCatch
         (andThen (writeDataFile cfg \<lparr>p_date = format date, p_message = Some m,
                      p_timestamp = now w2, p_id = Some u\<rparr>) (\<lambda>_.
          andThen (add cfg [commits_dataFile cfg]) (\<lambda>_.
          andThen (commit cfg m (Some (format date))) (\<lambda>result.
          andThen (act (logger Info ''Commit created'')) (\<lambda>_.
          ret result)))))
         (\<lambda>e. andThen (act (logger Error ''Failed to create commit'')) (\<lambda>_. throw e))
         w2" by blast
  show ?thesis
    unfolding c
    using e frameD [OF steady_frame [OF steady_createCommit_body [of date P cfg m "now w2" u]], of w2] assms
    by (blast intro: extends_trans)
qed

lemma createCommit_ok:
  assumes "allOk w"
  shows "\<exists>r. fst (createCommit cfg date msg w) = Inr r"
proof -
  from createCommit_split [of "\<lambda>e. True" w cfg date msg] obtain m w2 u where
    e: "extends (\<lambda>e. True) w w2" and
    c: "createCommit cfg date msg w =
       tryCatch
         (andThen (writeDataFile cfg \<lparr>p_date = format date, p_message = Some m,
                      p_timestamp = now w2, p_id = Some u\<rparr>) (\<lambda>_.
          andThen (add cfg [commits_dataFile cfg]) (\<lambda>_.
          andThen (commit cfg m (Some (format date))) (\<lambda>result.
          andThen (act (logger Info ''Commit created'')) (\<lambda>_.
          ret result)))))
         (\<lambda>e. andThen (act (logger Error ''Failed to create commit'')) (\<lambda>_. throw e))
         w2" by blast
  have "allOk w2" using e assms by (simp add: extends_allOk)
  then show ?thesis
    unfolding c
    using steady_ok [OF steady_createCommit_body [of date "\<lambda>e. True" cfg m "now w2" u], of w2]
    by simp
qed

lemma todayLoop_extends:
  "extends (inPhase Committing) w (snd (todayLoop cfg today k results w))"
proof (induction k arbitrary: results w)
  case 0
  show ?case by (simp add: extends_refl)
next
  case (Suc k)
  obtain r w1 where r: "random w = (r, w1)" by (cases "random w")
  have e1: "extends (inPhase Committing) w w1"
    using r extends_random [of "inPhase Committing" w] by simp
  let ?t = "addMillis \<lfloor>r * 60 * 12 * 60000\<rfloor> today"
  obtain x w2 where c: "createCommit cfg ?t None w1 = (x, w2)" by (cases "createCommit cfg ?t None w1")
  have e2: "extends (inPhase Committing) w1 w2"
    using c extends_createCommit [of ?t "inPhase Committing" w1 cfg None] by simp
  have e12: "extends (inPhase Committing) w w2" using e1 e2 by (rule extends_trans)
  show ?case
  proof (cases x)
    case (Inl e)
    have "extends (inPhase Committing) w2 (logger Error ''Failed to create commit'' w2)"
      by (rule extends_logger) (simp add: inPhase_def)
    with e12 have "extends (inPhase Committing) w (logger Error ''Failed to create commit'' w2)"
      by (rule extends_trans)
    then show ?thesis
      using r c Inl Suc.IH [of "logger Error ''Failed to create commit'' w2" results]
      by (simp add: Let_def) (blast intro: extends_trans)
  next
    case (Inr res)
    have "extends (inPhase Committing) w2 (sleep 100 w2)"
      by (rule extends_sleep) (simp add: inPhase_def)
    with e12 have "extends (inPhase Committing) w (sleep 100 w2)"
      by (rule extends_trans)
    then show ?thesis
      using r c Inr Suc.IH [of "sleep 100 w2" "results @ [res]"]
      by (simp add: Let_def) (blast intro: extends_trans)
  qed
qed

lemma createTodayContributions_extends:
  "extends (inPhase Committing) w (snd (createTodayContributions cfg w))"
proof -
  obtain n w1 where n: "getRandomCommitCount cfg w = (n, w1)" by (cases "getRandomCommitCount cfg w")
  have e1: "extends (inPhase Committing) w w1"
    using n extends_random [of "inPhase Committing" w]
    by (auto simp: getRandomCommitCount_def randomCount_def split: prod.splits)
  let ?w2 = "logger Info ''Creating contributions for today'' w1"
  have e2: "extends (inPhase Committing) w1 ?w2"
    by (rule extends_logger) (simp add: inPhase_def)
  have e3: "extends (inPhase Committing) ?w2 (snd (todayLoop cfg (now w) (nat n) [] ?w2))"
    by (rule todayLoop_extends)
  have "snd (createTodayContributions cfg w) = snd (todayLoop cfg (now w) (nat n) [] ?w2)"
    by (simp add: createTodayContributions_def Let_def n split: prod.splits)
  then show ?thesis
    using e1 e2 e3 by (auto intro: extends_trans)
qed

lemma createTodayContributions_returns: "\<exists>results. fst (createTodayContributions cfg w) = Inr results"
  by (simp add: createTodayContributions_def Let_def split: prod.splits)

section \<open>Properties of the Git service\<close>

lemma waits_append [simp]: "waits (xs @ ys) = waits xs @ waits ys"
  by (induction xs rule: waits.induct) auto

lemma pushCalls_append [simp]: "pushCalls (xs @ ys) = pushCalls xs + pushCalls ys"
  by (induction xs rule: pushCalls.induct) auto

lemmas io_defs = andThen_def ret_def throw_def act_def gets_def tryCatch_def git_def invoke_def
  logger_def emit_def sleep_def console_def

lemma pushLoop_exhaust:
  "\<not> app_dryRun cfg \<Longrightarrow> a \<le> app_retryAttempts cfg \<Longrightarrow> n = nat (app_retryAttempts cfg - a) \<Longrightarrow>
   (\<forall>i\<le>n. \<exists>m. respond w PPush (calls w PPush + i) = Fail m \<and> \<not> remoteAbsent m) \<Longrightarrow>
   respond w PPush (calls w PPush + n) = Fail msg \<Longrightarrow>
   \<exists>d. trace (snd (pushLoop cfg opts a w)) = trace w @ d \<and>
       fst (pushLoop cfg opts a w) = Inl msg \<and>
       waits d = map (\<lambda>k. app_retryDelay cfg * k) [a..app_retryAttempts cfg - 1] \<and>
       pushCalls d = n + 1"
proof (induction n arbitrary: a w)
  case 0
  then have a: "a = app_retryAttempts cfg" by simp
  from 0 have "\<exists>m. respond w PPush (calls w PPush) = Fail m \<and> \<not> remoteAbsent m" by simp
  with 0 a show ?case
    by (subst (1 2) pushLoop.simps) (auto simp: io_defs Let_def)
next
  case (Suc n)
  then have a: "a < app_retryAttempts cfg" by simp
  from Suc.prems(4) obtain m where m: "respond w PPush (calls w PPush) = Fail m" "\<not> remoteAbsent m"
    by (metis add.right_neutral le0)
  define w' where "w' = sleep (app_retryDelay cfg * a) (logger Warn ''Push attempt failed''
      (snd (invoke (GitPush (Some (orDefault (opt_remote opts) (git_remoteName cfg), orDefault (opt_branch opts) (git_branch cfg))))
         (logger Info ''Pushing to remote'' w))))"
  have step: "pushLoop cfg opts a w = pushLoop cfg opts (a + 1) w'"
    using a m Suc.prems(1) by (subst pushLoop.simps) (simp add: io_defs Let_def w'_def)
  have w': "respond w' = respond w" "calls w' PPush = Suc (calls w PPush)"
    "trace w' = trace w @ [Log Info ''Pushing to remote'',
        Called (GitPush (Some (orDefault (opt_remote opts) (git_remoteName cfg), orDefault (opt_branch opts) (git_branch cfg)))) (Fail m),
        Log Warn ''Push attempt failed'', Sleep (app_retryDelay cfg * a)]"
    using m by (simp_all add: w'_def io_defs Let_def)
  have "\<exists>d. trace (snd (pushLoop cfg opts (a + 1) w')) = trace w' @ d \<and>
       fst (pushLoop cfg opts (a + 1) w') = Inl msg \<and>
       waits d = map (\<lambda>k. app_retryDelay cfg * k) [a + 1..app_retryAttempts cfg - 1] \<and>
       pushCalls d = n + 1"
  proof (rule Suc.IH)
    show "\<not> app_dryRun cfg" by fact
    show "a + 1 \<le> app_retryAttempts cfg" using a by simp
    show "n = nat (app_retryAttempts cfg - (a + 1))" using Suc.prems(3) by linarith
    show "\<forall>i\<le>n. \<exists>m. respond w' PPush (calls w' PPush + i) = Fail m \<and> \<not> remoteAbsent m"
      using Suc.prems(4) w' by (metis Suc_le_mono add_Suc_shift)
    show "respond w' PPush (calls w' PPush + n) = Fail msg"
      using Suc.prems(5) w' by simp
  qed
  then obtain d where d: "trace (snd (pushLoop cfg opts (a + 1) w')) = trace w' @ d"
       "fst (pushLoop cfg opts (a + 1) w') = Inl msg"
       "waits d = map (\<lambda>k. app_retryDelay cfg * k) [a + 1..app_retryAttempts cfg - 1]"
       "pushCalls d = n + 1" by blast
  have up: "[a..app_retryAttempts cfg - 1] = a # [a + 1..app_retryAttempts cfg - 1]"
    using a by (simp add: upto_rec1)
  show ?case
    unfolding step using d w' up by simp
qed


lemma pushLoop_absent:
  "\<not> app_dryRun cfg \<Longrightarrow> a + int j \<le> app_retryAttempts cfg \<Longrightarrow>
   (\<forall>i<j. \<exists>m. respond w PPush (calls w PPush + i) = Fail m \<and> \<not> remoteAbsent m) \<Longrightarrow>
   respond w PPush (calls w PPush + j) = Fail msg \<Longrightarrow> remoteAbsent msg \<Longrightarrow>
   \<exists>d. trace (snd (pushLoop cfg opts a w)) = trace w @ d \<and>
       fst (pushLoop cfg opts a w) = Inr LocalOnly \<and>
       waits d = map (\<lambda>k. app_retryDelay cfg * k) [a..a + int j - 1] \<and>
       pushCalls d = j + 1"
proof (induction j arbitrary: a w)
  case 0
  then show ?case
    by (subst (1 2) pushLoop.simps) (auto simp: io_defs Let_def)
next
  case (Suc j)
  then have a: "a < app_retryAttempts cfg" by simp
  from Suc.prems(3) obtain m where m: "respond w PPush (calls w PPush) = Fail m" "\<not> remoteAbsent m"
    by (metis add.right_neutral zero_less_Suc)
  define w' where "w' = sleep (app_retryDelay cfg * a) (logger Warn ''Push attempt failed''
      (snd (invoke (GitPush (Some (orDefault (opt_remote opts) (git_remoteName cfg), orDefault (opt_branch opts) (git_branch cfg))))
         (logger Info ''Pushing to remote'' w))))"
  have step: "pushLoop cfg opts a w = pushLoop cfg opts (a + 1) w'"
    using a m Suc.prems(1) by (subst pushLoop.simps) (simp add: io_defs Let_def w'_def)
  have w': "respond w' = respond w" "calls w' PPush = Suc (calls w PPush)"
    "trace w' = trace w @ [Log Info ''Pushing to remote'',
        Called (GitPush (Some (orDefault (opt_remote opts) (git_remoteName cfg), orDefault (opt_branch opts) (git_branch cfg)))) (Fail m),
        Log Warn ''Push attempt failed'', Sleep (app_retryDelay cfg * a)]"
    using m by (simp_all add: w'_def io_defs Let_def)
  have "\<exists>d. trace (snd (pushLoop cfg opts (a + 1) w')) = trace w' @ d \<and>
       fst (pushLoop cfg opts (a + 1) w') = Inr LocalOnly \<and>
       waits d = map (\<lambda>k. app_retryDelay cfg * k) [a + 1..a + 1 + int j - 1] \<and>
       pushCalls d = j + 1"
  proof (rule Suc.IH)
    show "\<not> app_dryRun cfg" by fact
    show "a + 1 + int j \<le> app_retryAttempts cfg" using Suc.prems(2) by simp
    show "\<forall>i<j. \<exists>m. respond w' PPush (calls w' PPush + i) = Fail m \<and> \<not> remoteAbsent m"
      using Suc.prems(3) w' by (metis Suc_less_eq add_Suc_shift)
    show "respond w' PPush (calls w' PPush + j) = Fail msg"
      using Suc.prems(4) w' by simp
    show "remoteAbsent msg" by fact
  qed
  then obtain d where d: "trace (snd (pushLoop cfg opts (a + 1) w')) = trace w' @ d"
       "fst (pushLoop cfg opts (a + 1) w') = Inr LocalOnly"
       "waits d = map (\<lambda>k. app_retryDelay cfg * k) [a + 1..a + 1 + int j - 1]"
       "pushCalls d = j + 1" by blast
  have up: "[a..a + int (Suc j) - 1] = a # [a + 1..a + 1 + int j - 1]"
    by (simp add: upto_rec1)
  show ?case
    unfolding step using d w' up by simp
qed

lemma since_append: "trace w' = trace w @ d \<Longrightarrow> since w w' = d"
  by (simp add: since_def)

text \<open>
  C2. Every \<open>push\<close> that reaches its attempts (the service is initialized, no dry run):
  when the first \<open>j\<close> attempts fail for other reasons and the next one fails with a
  message of the remote-absent class, \<open>push\<close> returns \<open>{pushed: false, local: true}\<close>
  without an error, having made \<open>j + 1\<close> attempts and no more; when all
  \<open>retryAttempts\<close> attempts fail for other reasons, the last error is thrown after
  exactly \<open>retryAttempts\<close> attempts. In both cases the wait after failed attempt
  number \<open>k\<close> is \<open>retryDelay * k\<close>.
\<close>

theorem push_retry_policy:
  assumes "ensureInitialized cfg w = (Inr (), w1)" and "\<not> app_dryRun cfg"
  shows "(\<forall>j msg. int j < app_retryAttempts cfg \<and> otherFailures w1 j \<and>
            respond w1 PPush (calls w1 PPush + j) = Fail msg \<and> remoteAbsent msg \<longrightarrow>
            fst (push cfg opts w) = Inr LocalOnly \<and>
            pushCalls (since w1 (snd (push cfg opts w))) = j + 1 \<and>
            waits (since w1 (snd (push cfg opts w))) = map (\<lambda>k. app_retryDelay cfg * k) [1..int j]) \<and>
         (\<forall>n msg. app_retryAttempts cfg = int (Suc n) \<and> otherFailures w1 (Suc n) \<and>
            respond w1 PPush (calls w1 PPush + n) = Fail msg \<longrightarrow>
            fst (push cfg opts w) = Inl msg \<and>
            pushCalls (since w1 (snd (push cfg opts w))) = Suc n \<and>
            waits (since w1 (snd (push cfg opts w))) = map (\<lambda>k. app_retryDelay cfg * k) [1..int n])"
proof -
  have p: "push cfg opts w = pushLoop cfg opts 1 w1"
    using assms(1) by (simp add: push_def andThen_def)
  show ?thesis
  proof (intro conjI allI impI)
    fix j msg
    assume h: "int j < app_retryAttempts cfg \<and> otherFailures w1 j \<and>
            respond w1 PPush (calls w1 PPush + j) = Fail msg \<and> remoteAbsent msg"
    then have "\<exists>d. trace (snd (pushLoop cfg opts 1 w1)) = trace w1 @ d \<and>
       fst (pushLoop cfg opts 1 w1) = Inr LocalOnly \<and>
       waits d = map (\<lambda>k. app_retryDelay cfg * k) [1..1 + int j - 1] \<and>
       pushCalls d = j + 1"
      using assms(2) by (intro pushLoop_absent) (auto simp: otherFailures_def)
    then obtain d where d: "trace (snd (pushLoop cfg opts 1 w1)) = trace w1 @ d"
       "fst (pushLoop cfg opts 1 w1) = Inr LocalOnly"
       "waits d = map (\<lambda>k. app_retryDelay cfg * k) [1..int j]"
       "pushCalls d = j + 1" by auto
    show "fst (push cfg opts w) = Inr LocalOnly" using d p by simp
    show "pushCalls (since w1 (snd (push cfg opts w))) = j + 1"
      using d p by (simp add: since_append)
    show "waits (since w1 (snd (push cfg opts w))) = map (\<lambda>k. app_retryDelay cfg * k) [1..int j]"
      using d p by (simp add: since_append)
  next
    fix n msg
    assume h: "app_retryAttempts cfg = int (Suc n) \<and> otherFailures w1 (Suc n) \<and>
            respond w1 PPush (calls w1 PPush + n) = Fail msg"
    then have "\<exists>d. trace (snd (pushLoop cfg opts 1 w1)) = trace w1 @ d \<and>
       fst (pushLoop cfg opts 1 w1) = Inl msg \<and>
       waits d = map (\<lambda>k. app_retryDelay cfg * k) [1..app_retryAttempts cfg - 1] \<and>
       pushCalls d = n + 1"
      using assms(2) by (intro pushLoop_exhaust) (auto simp: otherFailures_def less_Suc_eq_le)
    then obtain d where d: "trace (snd (pushLoop cfg opts 1 w1)) = trace w1 @ d"
       "fst (pushLoop cfg opts 1 w1) = Inl msg"
       "waits d = map (\<lambda>k. app_retryDelay cfg * k) [1..int n]"
       "pushCalls d = n + 1" using h by auto
    show "fst (push cfg opts w) = Inl msg" using d p by simp
    show "pushCalls (since w1 (snd (push cfg opts w))) = Suc n"
      using d p by (simp add: since_append)
    show "waits (since w1 (snd (push cfg opts w))) = map (\<lambda>k. app_retryDelay cfg * k) [1..int n]"
      using d p by (simp add: since_append)
  qed
qed

theorem push_retry_policy_witness:
  "fst (push defaultConfig noOptions (ready (\<lambda>p i. Fail ''timeout'') noon (\<lambda>i. 0))) = Inl ''timeout'' \<and>
   pushCalls (since (ready (\<lambda>p i. Fail ''timeout'') noon (\<lambda>i. 0))
     (snd (push defaultConfig noOptions (ready (\<lambda>p i. Fail ''timeout'') noon (\<lambda>i. 0))))) = 3 \<and>
   waits (since (ready (\<lambda>p i. Fail ''timeout'') noon (\<lambda>i. 0))
     (snd (push defaultConfig noOptions (ready (\<lambda>p i. Fail ''timeout'') noon (\<lambda>i. 0))))) = [1000, 2000] \<and>
   fst (push defaultConfig noOptions (ready flaky noon (\<lambda>i. 0))) = Inr LocalOnly \<and>
   pushCalls (since (ready flaky noon (\<lambda>i. 0))
     (snd (push defaultConfig noOptions (ready flaky noon (\<lambda>i. 0))))) = 2 \<and>
   waits (since (ready flaky noon (\<lambda>i. 0))
     (snd (push defaultConfig noOptions (ready flaky noon (\<lambda>i. 0))))) = [1000]"
proof -
  have nd: "\<not> app_dryRun defaultConfig" by (simp add: defaultConfig_def)
  have t: "\<not> remoteAbsent ''timeout''" by (simp add: remoteAbsent_def)
  have r: "remoteAbsent ''fatal: repository not found''" by (simp add: remoteAbsent_def)
  have i1: "ensureInitialized defaultConfig (ready (\<lambda>p i. Fail ''timeout'') noon (\<lambda>i. 0)) =
      (Inr (), ready (\<lambda>p i. Fail ''timeout'') noon (\<lambda>i. 0))"
    by (simp add: ensureInitialized_def ready_def)
  have i2: "ensureInitialized defaultConfig (ready flaky noon (\<lambda>i. 0)) = (Inr (), ready flaky noon (\<lambda>i. 0))"
    by (simp add: ensureInitialized_def ready_def)
  have o1: "otherFailures (ready (\<lambda>p i. Fail ''timeout'') noon (\<lambda>i. 0)) (Suc 2)"
    using t by (simp add: otherFailures_def ready_def)
  have o2: "otherFailures (ready flaky noon (\<lambda>i. 0)) 1"
    using t by (simp add: otherFailures_def ready_def flaky_def)
  have a: "app_retryAttempts defaultConfig = int (Suc 2)" by (simp add: defaultConfig_def)
  have f: "respond (ready flaky noon (\<lambda>i. 0)) PPush (calls (ready flaky noon (\<lambda>i. 0)) PPush + 1)
      = Fail ''fatal: repository not found''"
    by (simp add: ready_def flaky_def)
  have g: "respond (ready (\<lambda>p i. Fail ''timeout'') noon (\<lambda>i. 0)) PPush
      (calls (ready (\<lambda>p i. Fail ''timeout'') noon (\<lambda>i. 0)) PPush + 2) = Fail ''timeout''"
    by (simp add: ready_def)
  from push_retry_policy [OF i1 nd, of noOptions, THEN conjunct2, rule_format, of 2 "''timeout''"]
    a o1 g
  have A: "fst (push defaultConfig noOptions (ready (\<lambda>p i. Fail ''timeout'') noon (\<lambda>i. 0))) = Inl ''timeout'' \<and>
   pushCalls (since (ready (\<lambda>p i. Fail ''timeout'') noon (\<lambda>i. 0))
     (snd (push defaultConfig noOptions (ready (\<lambda>p i. Fail ''timeout'') noon (\<lambda>i. 0))))) = 3 \<and>
   waits (since (ready (\<lambda>p i. Fail ''timeout'') noon (\<lambda>i. 0))
     (snd (push defaultConfig noOptions (ready (\<lambda>p i. Fail ''timeout'') noon (\<lambda>i. 0))))) = [1000, 2000]"
    by (simp add: defaultConfig_def upto_rec1)
  from push_retry_policy [OF i2 nd, of noOptions, THEN conjunct1, rule_format, of 1 "''fatal: repository not found''"]
    o2 f r
  have B: "fst (push defaultConfig noOptions (ready flaky noon (\<lambda>i. 0))) = Inr LocalOnly \<and>
   pushCalls (since (ready flaky noon (\<lambda>i. 0))
     (snd (push defaultConfig noOptions (ready flaky noon (\<lambda>i. 0))))) = 2 \<and>
   waits (since (ready flaky noon (\<lambda>i. 0))
     (snd (push defaultConfig noOptions (ready flaky noon (\<lambda>i. 0))))) = [1000]"
    by (simp add: defaultConfig_def upto_rec1)
  from A B show ?thesis by simp
qed

text \<open>
  C9. Every \<open>pull\<close> whose \<open>git pull\<close> fails with a message of a recoverable class (no
  tracking information, remote ref not found, not a git repository, repository not
  found, unstaged changes) returns the empty result without an error, after the one
  call and one debug line; with any other message the error is thrown to the caller.
\<close>

theorem pull_failure_classes:
  assumes "ensureInitialized cfg w = (Inr (), w1)" and "\<not> app_dryRun cfg"
    and "respond w1 PPull (calls w1 PPull) = Fail msg"
  shows "(recoverablePull msg \<longrightarrow> pull cfg opts w =
            (Inr EmptyResult, logger Debug ''Remote not available or local changes, skipping pull''
               (snd (invoke (GitPull (orDefault (opt_remote opts) (git_remoteName cfg))
                                     (orDefault (opt_branch opts) (git_branch cfg))) w1)))) \<and>
         (\<not> recoverablePull msg \<longrightarrow> fst (pull cfg opts w) = Inl msg)"
  using assms by (simp add: pull_def io_defs Let_def)

theorem pull_failure_classes_witness:
  "fst (pull defaultConfig noOptions
      (ready (\<lambda>p i. Fail ''There is no tracking information for the current branch.'') noon (\<lambda>i. 0)))
     = Inr EmptyResult \<and>
   fst (pull defaultConfig noOptions (ready (\<lambda>p i. Fail ''Authentication failed'') noon (\<lambda>i. 0)))
     = Inl ''Authentication failed''"
proof -
  have nd: "\<not> app_dryRun defaultConfig" by (simp add: defaultConfig_def)
  have i1: "ensureInitialized defaultConfig (ready r noon (\<lambda>i. 0)) = (Inr (), ready r noon (\<lambda>i. 0))" for r
    by (simp add: ensureInitialized_def ready_def)
  have r1: "recoverablePull ''There is no tracking information for the current branch.''"
    by (simp add: recoverablePull_def)
  have r2: "\<not> recoverablePull ''Authentication failed''"
    by (simp add: recoverablePull_def)
  have f: "respond (ready (\<lambda>p i. Fail m) noon (\<lambda>i. 0)) PPull (calls (ready (\<lambda>p i. Fail m) noon (\<lambda>i. 0)) PPull) = Fail m" for m
    by (simp add: ready_def)
  from pull_failure_classes [where opts = noOptions, OF i1 nd f [of "''There is no tracking information for the current branch.''"]]
    pull_failure_classes [where opts = noOptions, OF i1 nd f [of "''Authentication failed''"]] r1 r2
  show ?thesis by simp
qed

section \<open>Properties of the scheduler\<close>

lemma since_logger [simp]: "since w (logger l s w) = [Log l s]"
  by (simp add: since_def logger_def emit_def)

text \<open>
  C1. While \<open>isRunning\<close> is true, a trigger of \<open>executeTask\<close>, from the cron tick or
  through \<open>runNow\<close>, returns at once: the scheduler (its statistics, \<open>lastRun\<close> and every
  other field) is unchanged, only log lines are written and no primitive is called; no
  field records the dropped trigger.
\<close>

theorem executeTask_dropped:
  assumes "isRunning s"
  shows "executeTask cfg s w =
           (Inr (), s, logger Warn ''Task already running, skipping this execution'' w) \<and>
         runNow cfg s w =
           (Inr (), s, logger Warn ''Task already running, skipping this execution''
                         (logger Info ''Manual task execution triggered'' w)) \<and>
         primitives (since w (snd (snd (executeTask cfg s w)))) = [] \<and>
         primitives (since w (snd (snd (runNow cfg s w)))) = [] \<and>
         step s (Trigger w) = s"
  using assms by (simp add: executeTask_def runNow_def since_def logger_def emit_def)

theorem executeTask_dropped_witness:
  "isRunning busyScheduler \<and>
   fst (snd (executeTask defaultConfig busyScheduler quietWorld)) = busyScheduler \<and>
   fst (snd (runNow defaultConfig busyScheduler quietWorld)) = busyScheduler \<and>
   primitives (since quietWorld (snd (snd (runNow defaultConfig busyScheduler quietWorld)))) = []"
proof -
  have r: "isRunning busyScheduler" by (simp add: busyScheduler_def)
  from executeTask_dropped [OF r, of defaultConfig quietWorld] r show ?thesis
    by (simp add: since_def logger_def emit_def)
qed

lemma step_invariant:
  "(isRunning (after as) \<longrightarrow>
      totalRuns (stats (after as)) = successfulRuns (stats (after as)) + failedRuns (stats (after as)) + 1) \<and>
   (\<not> isRunning (after as) \<longrightarrow>
      totalRuns (stats (after as)) = successfulRuns (stats (after as)) + failedRuns (stats (after as)))"
proof (induction as rule: rev_induct)
  case Nil
  show ?case by (simp add: after_def newScheduler_def)
next
  case (snoc a as)
  have a: "after (as @ [a]) = step (after as) a" by (simp add: after_def)
  show ?case
    unfolding a using snoc
    by (cases a) (auto simp: beginTask_def endTask_def start_def stop_def updateNextRun_def split: sum.splits)
qed

lemma step_monotone:
  "totalRuns (stats s) \<le> totalRuns (stats (step s a)) \<and>
   successfulRuns (stats s) \<le> successfulRuns (stats (step s a)) \<and>
   failedRuns (stats s) \<le> failedRuns (stats (step s a))"
  by (cases a) (auto simp: beginTask_def endTask_def start_def stop_def updateNextRun_def split: sum.splits)

lemma executeTask_steps:
  "\<not> isRunning s \<Longrightarrow>
   fst (snd (executeTask cfg s w)) =
     step (step s (Trigger w))
       (Finish (fst (taskBody cfg (snd (beginTask s w)))) (snd (taskBody cfg (snd (beginTask s w)))))"
  by (simp add: executeTask_def beginTask_def endTask_def split: prod.splits sum.splits)

text \<open>
  C10. The statistics start at zero; in every state the scheduler can reach, when no
  run is in flight \<open>totalRuns = successfulRuns + failedRuns\<close>; a run of \<open>executeTask\<close>
  from such a state ends with \<open>isRunning\<close> false, \<open>totalRuns\<close> one higher and exactly one
  of \<open>successfulRuns\<close> and \<open>failedRuns\<close> one higher; no step lowers a counter.
\<close>

theorem stats_invariant:
  "stats newScheduler = \<lparr>totalRuns = 0, successfulRuns = 0, failedRuns = 0\<rparr> \<and>
   (\<not> isRunning (after as) \<longrightarrow>
      totalRuns (stats (after as)) = successfulRuns (stats (after as)) + failedRuns (stats (after as))) \<and>
   (\<not> isRunning s \<longrightarrow>
      \<not> isRunning (fst (snd (executeTask cfg s w))) \<and>
      totalRuns (stats (fst (snd (executeTask cfg s w)))) = totalRuns (stats s) + 1 \<and>
      (successfulRuns (stats (fst (snd (executeTask cfg s w)))) = successfulRuns (stats s) + 1 \<and>
       failedRuns (stats (fst (snd (executeTask cfg s w)))) = failedRuns (stats s)
       \<or>
       successfulRuns (stats (fst (snd (executeTask cfg s w)))) = successfulRuns (stats s) \<and>
       failedRuns (stats (fst (snd (executeTask cfg s w)))) = failedRuns (stats s) + 1)) \<and>
   totalRuns (stats (after as)) \<le> totalRuns (stats (after (as @ [a]))) \<and>
   successfulRuns (stats (after as)) \<le> successfulRuns (stats (after (as @ [a]))) \<and>
   failedRuns (stats (after as)) \<le> failedRuns (stats (after (as @ [a])))"
proof -
  have a: "after (as @ [a]) = step (after as) a" by (simp add: after_def)
  have run: "\<not> isRunning s \<longrightarrow>
      \<not> isRunning (fst (snd (executeTask cfg s w))) \<and>
      totalRuns (stats (fst (snd (executeTask cfg s w)))) = totalRuns (stats s) + 1 \<and>
      (successfulRuns (stats (fst (snd (executeTask cfg s w)))) = successfulRuns (stats s) + 1 \<and>
       failedRuns (stats (fst (snd (executeTask cfg s w)))) = failedRuns (stats s)
       \<or>
       successfulRuns (stats (fst (snd (executeTask cfg s w)))) = successfulRuns (stats s) \<and>
       failedRuns (stats (fst (snd (executeTask cfg s w)))) = failedRuns (stats s) + 1)"
    by (simp add: executeTask_def beginTask_def endTask_def split: prod.splits sum.splits)
  show ?thesis
    unfolding a using step_invariant [of as] step_monotone [of "after as" a] run
    by (simp add: newScheduler_def)
qed

theorem stats_invariant_witness:
  "\<not> isRunning (after [Trigger quietWorld, Finish (Inl ''timeout'') quietWorld]) \<and>
   stats (after [Trigger quietWorld, Finish (Inl ''timeout'') quietWorld]) =
     \<lparr>totalRuns = 1, successfulRuns = 0, failedRuns = 1\<rparr> \<and>
   \<not> isRunning newScheduler \<and>
   totalRuns (stats (fst (snd (executeTask defaultConfig newScheduler quietWorld)))) = 1"
proof -
  have n: "\<not> isRunning newScheduler" by (simp add: newScheduler_def)
  have t: "totalRuns (stats newScheduler) = 0" by (simp add: newScheduler_def)
  have s: "after [Trigger quietWorld, Finish (Inl ''timeout'') quietWorld] =
    newScheduler\<lparr>isRunning := False, lastRun := Some (now quietWorld),
       stats := \<lparr>totalRuns = 1, successfulRuns = 0, failedRuns = 1\<rparr>\<rparr>"
    by (simp add: after_def newScheduler_def beginTask_def endTask_def)
  from stats_invariant [of "[Trigger quietWorld, Finish (Inl ''timeout'') quietWorld]" newScheduler
      defaultConfig quietWorld "Stop quietWorld"] n t s
  show ?thesis by simp
qed

lemma phases_append: "phases (xs @ ys) = phases xs @ phases ys"
  by (simp add: phases_def map_filter_def)

lemma phases_inPhase: "list_all (inPhase ph) d \<Longrightarrow> set (phases d) \<subseteq> {ph}"
  by (auto simp: phases_def map_filter_def list_all_iff inPhase_def)

lemma phases_log [simp]: "phases [Log l s] = []"
  by (simp add: phases_def map_filter_def)

lemma sorted_phases3:
  assumes that: "phaseOf a = None" "phaseOf b = None"
    and "set (phases d1) \<subseteq> {Pulling}" "set (phases d2) \<subseteq> {Committing}" "set (phases d3) \<subseteq> {Pushing}"
  shows "sorted (map rank (phases (a # d1 @ d2 @ d3 @ [b])))"
proof -
  have s: "set xs \<subseteq> {ph} \<Longrightarrow> sorted (map rank xs)" for xs ph
    by (induction xs) auto
  have "phases (a # d1 @ d2 @ d3 @ [b]) = phases d1 @ phases d2 @ phases d3"
    using that by (simp add: phases_def map_filter_def)
  then show ?thesis
    using assms s [of "phases d1" Pulling] s [of "phases d2" Committing] s [of "phases d3" Pushing]
    by (fastforce simp: sorted_append)
qed

lemma extendsE:
  assumes "extends P w w'"
  obtains d where "trace w' = trace w @ d" "list_all P d"
  using assms by (auto simp: extends_def)

lemma taskBody_phases:
  "\<exists>d1 d2 d3. trace (snd (taskBody cfg w)) = trace w @ d1 @ d2 @ d3 \<and>
     set (phases d1) \<subseteq> {Pulling} \<and> set (phases d2) \<subseteq> {Committing} \<and> set (phases d3) \<subseteq> {Pushing}"
proof -
  obtain r1 w1 where p: "pull cfg noOptions w = (r1, w1)" by (cases "pull cfg noOptions w")
  have "frame (inPhase Pulling) (pull cfg noOptions)"
    by (rule steady_frame) (rule steady_pull)
  from frameD [OF this, of w] have "extends (inPhase Pulling) w w1"
    using p by simp
  then obtain d1 where d1: "trace w1 = trace w @ d1" "list_all (inPhase Pulling) d1"
    by (rule extendsE)
  show ?thesis
  proof (cases r1)
    case (Inl e)
    then have "snd (taskBody cfg w) = w1" by (simp add: taskBody_def andThen_def p)
    then show ?thesis
      using d1 phases_inPhase [of Pulling d1]
      by (intro exI [of _ d1] exI [of _ "[]"]) (simp add: phases_def map_filter_def)
  next
    case (Inr a)
    obtain r2 w2 where c: "createTodayContributions cfg w1 = (r2, w2)"
      by (cases "createTodayContributions cfg w1")
    have "extends (inPhase Committing) w1 w2"
      using createTodayContributions_extends [of w1 cfg] c by simp
    then obtain d2 where d2: "trace w2 = trace w1 @ d2" "list_all (inPhase Committing) d2"
      by (rule extendsE)
    obtain res where res: "r2 = Inr res"
      using createTodayContributions_returns [of cfg w1] c by auto
    obtain r3 w3 where q: "push cfg noOptions w2 = (r3, w3)" by (cases "push cfg noOptions w2")
    have "frame (inPhase Pushing) (push cfg noOptions)"
      by (rule frame_push)
    from frameD [OF this, of w2] have "extends (inPhase Pushing) w2 w3"
      using q by simp
    then obtain d3 where d3: "trace w3 = trace w2 @ d3" "list_all (inPhase Pushing) d3"
      by (rule extendsE)
    have "snd (taskBody cfg w) = w3"
      using Inr p c res q by (cases r3) (simp_all add: taskBody_def andThen_def ret_def)
    then show ?thesis
      using d1 d2 d3 phases_inPhase [of Pulling d1] phases_inPhase [of Committing d2]
        phases_inPhase [of Pushing d3]
      by (intro exI [of _ d1] exI [of _ d2] exI [of _ d3]) simp
  qed
qed

lemma executeTask_sorted:
  assumes "\<not> isRunning s"
  shows "sorted (map rank (phases (since w (snd (snd (executeTask cfg s w))))))"
proof -
  let ?w1 = "logger Info ''Starting scheduled contribution task'' w"
  from taskBody_phases [of cfg ?w1] obtain d1 d2 d3 where
    t: "trace (snd (taskBody cfg ?w1)) = trace ?w1 @ d1 @ d2 @ d3" and
    ph: "set (phases d1) \<subseteq> {Pulling}" "set (phases d2) \<subseteq> {Committing}" "set (phases d3) \<subseteq> {Pushing}"
    by blast
  obtain r w2 where b: "taskBody cfg ?w1 = (r, w2)" by (cases "taskBody cfg ?w1")
  have "\<exists>l m. since w (snd (snd (executeTask cfg s w))) =
      Log Info ''Starting scheduled contribution task'' # d1 @ d2 @ d3 @ [Log l m]"
    using assms b t
    by (cases r) (simp_all add: executeTask_def beginTask_def endTask_def since_def logger_def emit_def)
  then obtain l m where "since w (snd (snd (executeTask cfg s w))) =
      Log Info ''Starting scheduled contribution task'' # d1 @ d2 @ d3 @ [Log l m]" by blast
  then show ?thesis
    using sorted_phases3 [OF _ _ ph, of "Log Info ''Starting scheduled contribution task''" "Log l m"]
    by simp
qed

text \<open>
  C3. A call of \<open>executeTask\<close> with \<open>isRunning\<close> false runs \<open>pull\<close>, then
  \<open>createTodayContributions\<close>, then \<open>push\<close>: the events of the run are ordered pull,
  commit creation, push. An error thrown by \<open>pull\<close> or by \<open>push\<close> (the commit creation
  throws none) ends the sequence, adds one to \<open>failedRuns\<close> and is not thrown on; without
  an error \<open>successfulRuns\<close> is one higher. In every case the promise resolves, the job
  stays registered and \<open>isRunning\<close> is false at the end.
\<close>

theorem executeTask_runs:
  assumes "\<not> isRunning s"
  shows "fst (executeTask cfg s w) = Inr () \<and>
         \<not> isRunning (fst (snd (executeTask cfg s w))) \<and>
         job (fst (snd (executeTask cfg s w))) = job s \<and>
         sorted (map rank (phases (since w (snd (snd (executeTask cfg s w)))))) \<and>
         (\<forall>e. fst (pull cfg noOptions (snd (beginTask s w))) = Inl e \<longrightarrow>
            snd (executeTask cfg s w) =
              (ranTo s w 0 1,
               logger Error ''Scheduled task failed'' (snd (pull cfg noOptions (snd (beginTask s w)))))) \<and>
         (\<forall>a. fst (pull cfg noOptions (snd (beginTask s w))) = Inr a \<longrightarrow>
            (\<forall>e. fst (push cfg noOptions
                    (snd (createTodayContributions cfg (snd (pull cfg noOptions (snd (beginTask s w))))))) = Inl e \<longrightarrow>
               snd (executeTask cfg s w) =
                 (ranTo s w 0 1,
                  logger Error ''Scheduled task failed''
                    (snd (push cfg noOptions
                       (snd (createTodayContributions cfg (snd (pull cfg noOptions (snd (beginTask s w)))))))))) \<and>
            (\<forall>b. fst (push cfg noOptions
                    (snd (createTodayContributions cfg (snd (pull cfg noOptions (snd (beginTask s w))))))) = Inr b \<longrightarrow>
               snd (executeTask cfg s w) =
                 (ranTo s w 1 0,
                  logger Info ''Scheduled task completed successfully''
                    (snd (push cfg noOptions
                       (snd (createTodayContributions cfg (snd (pull cfg noOptions (snd (beginTask s w)))))))))))"
proof -
  let ?w1 = "snd (beginTask s w)"
  have rec: "s\<lparr>isRunning := False, lastRun := Some (now w),
       stats := \<lparr>totalRuns = totalRuns (stats s) + 1,
                 successfulRuns = successfulRuns (stats s) + ok,
                 failedRuns = failedRuns (stats s) + bad\<rparr>\<rparr> = ranTo s w ok bad" for ok bad
    by (simp add: ranTo_def)
  obtain r1 w1 where p: "pull cfg noOptions ?w1 = (r1, w1)" by (cases "pull cfg noOptions ?w1")
  obtain r2 w2 where c: "createTodayContributions cfg w1 = (r2, w2)"
    by (cases "createTodayContributions cfg w1")
  obtain res where res: "r2 = Inr res"
    using createTodayContributions_returns [of cfg w1] c by auto
  obtain r3 w3 where q: "push cfg noOptions w2 = (r3, w3)" by (cases "push cfg noOptions w2")
  have 1: "fst (executeTask cfg s w) = Inr () \<and> \<not> isRunning (fst (snd (executeTask cfg s w))) \<and>
         job (fst (snd (executeTask cfg s w))) = job s"
    using assms by (simp add: executeTask_def beginTask_def endTask_def split: prod.splits sum.splits)
  have 2: "fst (pull cfg noOptions ?w1) = Inl e \<longrightarrow>
            snd (executeTask cfg s w) = (ranTo s w 0 1, logger Error ''Scheduled task failed'' (snd (pull cfg noOptions ?w1)))" for e
    using assms p
    by (auto simp: executeTask_def taskBody_def andThen_def beginTask_def endTask_def ranTo_def)
  have 3: "fst (pull cfg noOptions ?w1) = Inr a \<longrightarrow>
            (\<forall>e. fst (push cfg noOptions (snd (createTodayContributions cfg (snd (pull cfg noOptions ?w1))))) = Inl e \<longrightarrow>
               snd (executeTask cfg s w) =
                 (ranTo s w 0 1,
                  logger Error ''Scheduled task failed''
                    (snd (push cfg noOptions (snd (createTodayContributions cfg (snd (pull cfg noOptions ?w1)))))))) \<and>
            (\<forall>b. fst (push cfg noOptions (snd (createTodayContributions cfg (snd (pull cfg noOptions ?w1))))) = Inr b \<longrightarrow>
               snd (executeTask cfg s w) =
                 (ranTo s w 1 0,
                  logger Info ''Scheduled task completed successfully''
                    (snd (push cfg noOptions (snd (createTodayContributions cfg (snd (pull cfg noOptions ?w1))))))))" for a
    using assms p c res q
    by (auto simp: executeTask_def taskBody_def andThen_def ret_def endTask_def ranTo_def beginTask_def)
  show ?thesis
    using 1 2 3 executeTask_sorted [OF assms, of w cfg] by blast
qed


lemmas eval_defs = pull_def push_def ensureInitialized_def createTodayContributions_def
  getRandomCommitCount_def randomCount_def random_def crypto_def createCommit_def
  generateCommitMessage_def writeDataFile_def add_def commit_def now_def format_def
  addMillis_def atMillis_def beginTask_def orDefault_def noOptions_def
  ready_def defaultConfig_def dryConfig_def quietWorld_def brokenWorld_def laterWorld_def
  allSucceed_def allFail_def zeros_def stopped_def newScheduler_def
  andThen_def ret_def throw_def act_def gets_def tryCatch_def git_def invoke_def
  logger_def emit_def sleep_def console_def Let_def

theorem executeTask_runs_witness:
  "\<not> isRunning newScheduler \<and>
   fst (executeTask defaultConfig newScheduler quietWorld) = Inr () \<and>
   stats (fst (snd (executeTask defaultConfig newScheduler quietWorld))) =
     \<lparr>totalRuns = 1, successfulRuns = 1, failedRuns = 0\<rparr> \<and>
   stats (fst (snd (executeTask defaultConfig newScheduler brokenWorld))) =
     \<lparr>totalRuns = 1, successfulRuns = 0, failedRuns = 1\<rparr> \<and>
   stats (fst (snd (executeTask defaultConfig newScheduler offlineWorld))) =
     \<lparr>totalRuns = 1, successfulRuns = 0, failedRuns = 1\<rparr> \<and>
   \<not> isRunning (fst (snd (executeTask defaultConfig newScheduler offlineWorld)))"
proof -
  have n: "\<not> isRunning newScheduler" by (simp add: newScheduler_def)
  have b: "fst (pull defaultConfig noOptions (snd (beginTask newScheduler brokenWorld))) = Inl ''timeout''"
    by (simp add: eval_defs recoverablePull_def)
  have q1: "fst (pull defaultConfig noOptions (snd (beginTask newScheduler quietWorld))) = Inr GitPulled"
    by (simp add: eval_defs)
  have q2: "fst (push defaultConfig noOptions
      (snd (createTodayContributions defaultConfig
        (snd (pull defaultConfig noOptions (snd (beginTask newScheduler quietWorld))))))) = Inr GitPushed"
    by (simp add: eval_defs pushLoop.simps)
  have o1: "fst (pull defaultConfig noOptions (snd (beginTask newScheduler offlineWorld))) = Inr GitPulled"
    by (simp add: eval_defs offlineWorld_def pushDown_def)
  have o2: "fst (push defaultConfig noOptions
      (snd (createTodayContributions defaultConfig
        (snd (pull defaultConfig noOptions (snd (beginTask newScheduler offlineWorld))))))) = Inl ''timeout''"
    by (simp add: eval_defs offlineWorld_def pushDown_def pushLoop.simps remoteAbsent_def)
  have r: "stats (ranTo newScheduler w ok bad) = \<lparr>totalRuns = 1, successfulRuns = ok, failedRuns = bad\<rparr>" for w ok bad
    by (simp add: ranTo_def newScheduler_def)
  have r': "\<not> isRunning (ranTo newScheduler w ok bad)" for w ok bad
    by (simp add: ranTo_def)
  from executeTask_runs [OF n, of defaultConfig quietWorld] r'
    executeTask_runs [OF n, of defaultConfig brokenWorld]
    executeTask_runs [OF n, of defaultConfig offlineWorld] n b q1 q2 o1 o2 r
  show ?thesis by simp
qed

section \<open>Properties of the pattern script\<close>

lemma resolveLocal_kept: "\<not> skippedAt z (mday t) (mms t) \<Longrightarrow> resolveLocal z t = t"
  by (auto simp: resolveLocal_def skippedAt_def split: option.splits)

lemma subtractYears_kept:
  "neverSkipped z (mms t) \<Longrightarrow> subtractYears z n t = t\<lparr>mday := yearsBefore n (mday t)\<rparr>"
  by (simp add: subtractYears_def neverSkipped_def resolveLocal_kept)

lemma addDays_kept: "neverSkipped z (mms t) \<Longrightarrow> addDays z n t = t\<lparr>mday := mday t + n\<rparr>"
  by (simp add: addDays_def neverSkipped_def resolveLocal_kept)

lemma generateDateAt_kept:
  assumes "neverSkipped z (mms t)"
  shows "generateDateAt sc z t weeksBack dayOfWeek =
     \<lparr>sday = yearsBefore (s_yearsBack sc) (mday t) + 1 + 7 * weeksBack + dayOfWeek,
      ssec = mms t div 1000\<rparr>"
  using assms
  by (simp add: generateDateAt_def addWeeks_def subtractYears_kept addDays_kept format_def)

text \<open>
  The chain of \<open>generateDate\<close> where the zone skips a time: in the zone of New York a
  call at 02:30 of 2024-03-12 (day 19794) with one year back gives 03:30 of 2023-03-13,
  since 02:30 does not exist on 2023-03-12.
\<close>

lemma generateDateAt_skipped:
  "generateDateAt CONFIG nightGap \<lparr>mday = 19794, mms = 9000000\<rparr> 0 0 = \<lparr>sday = 19429, ssec = 12600\<rparr>"
proof -
  have y: "yearsBefore (s_yearsBack CONFIG) 19794 = 19428" by code_simp
  show ?thesis
    by (simp add: generateDateAt_def subtractYears_def addDays_def addWeeks_def y resolveLocal_def
          nightGap_def atMillis_def format_def)
qed

text \<open>
  C5 (as the code has it). \<open>generateDate\<close> reads the clock with its time of day: two
  calls at the same instant, in the same zone and with the same arguments give the same
  result. When the time of day of the call is one that the zone skips on no day, the
  result is the instant of the call moved back \<open>yearsBack\<close> years and forward one day,
  \<open>weeksBack\<close> weeks and \<open>dayOfWeek\<close> days, printed to the second with the time of day of
  the call; two such calls on the same calendar day give the same calendar date.
\<close>

theorem generateDate_of_instant:
  "(localZone w = localZone w' \<and> now w = now w' \<longrightarrow>
      generateDate sc weeksBack dayOfWeek w = generateDate sc weeksBack dayOfWeek w') \<and>
   (neverSkipped (localZone w) (mms (now w)) \<longrightarrow>
      generateDate sc weeksBack dayOfWeek w =
        \<lparr>sday = yearsBefore (s_yearsBack sc) (mday (now w)) + 1 + 7 * weeksBack + dayOfWeek,
         ssec = mms (now w) div 1000\<rparr>) \<and>
   (neverSkipped (localZone w) (mms (now w)) \<and> neverSkipped (localZone w') (mms (now w')) \<and>
    mday (now w) = mday (now w') \<longrightarrow>
      sday (generateDate sc weeksBack dayOfWeek w) = sday (generateDate sc weeksBack dayOfWeek w'))"
  by (simp add: generateDate_def generateDateAt_kept)

theorem generateDate_of_instant_witness:
  "neverSkipped (localZone gapWorld) (mms (now gapWorld)) \<and>
   neverSkipped (localZone quietWorld) (mms (now quietWorld)) \<and>
   mday (now gapWorld) = mday (now quietWorld) \<and>
   generateDate CONFIG 3 2 gapWorld = \<lparr>sday = 19658, ssec = 43200\<rparr> \<and>
   sday (generateDate CONFIG 3 2 gapWorld) = sday (generateDate CONFIG 3 2 quietWorld) \<and>
   localZone gapWorld = localZone (sleep 100 gapWorld) \<and> now gapWorld = now (sleep 100 gapWorld) \<and>
   generateDate CONFIG 3 2 gapWorld = generateDate CONFIG 3 2 (sleep 100 gapWorld)"
proof -
  have g: "neverSkipped (localZone gapWorld) (mms (now gapWorld))"
    by (simp add: neverSkipped_def skippedAt_def gapWorld_def midnightGap_def now_def ready_def noon_def)
  have q: "neverSkipped (localZone quietWorld) (mms (now quietWorld))"
    by (simp add: neverSkipped_def skippedAt_def quietWorld_def ready_def)
  have d: "mday (now gapWorld) = mday (now quietWorld)"
    by (simp add: now_def gapWorld_def quietWorld_def ready_def stopped_def noon_def)
  have s: "localZone gapWorld = localZone (sleep 100 gapWorld)" "now gapWorld = now (sleep 100 gapWorld)"
    by (simp_all add: now_def gapWorld_def ready_def noon_def sleep_def emit_def)
  have y: "yearsBefore (s_yearsBack CONFIG) 20000 = 19634"
    by code_simp
  have v: "yearsBefore (s_yearsBack CONFIG) (mday (now gapWorld)) = 19634"
    using y by (simp add: now_def gapWorld_def ready_def noon_def)
  have m: "mms (now gapWorld) = 43200000"
    by (simp add: now_def gapWorld_def ready_def noon_def)
  note T = generateDate_of_instant [of gapWorld "sleep 100 gapWorld" CONFIG 3 2]
  note U = generateDate_of_instant [of gapWorld quietWorld CONFIG 3 2]
  have 1: "generateDate CONFIG 3 2 gapWorld = \<lparr>sday = 19658, ssec = 43200\<rparr>"
    using U [THEN conjunct2, THEN conjunct1] g v m by simp
  have 2: "sday (generateDate CONFIG 3 2 gapWorld) = sday (generateDate CONFIG 3 2 quietWorld)"
    using U [THEN conjunct2, THEN conjunct2] g q d by blast
  have 3: "generateDate CONFIG 3 2 gapWorld = generateDate CONFIG 3 2 (sleep 100 gapWorld)"
    using T [THEN conjunct1] s by blast
  show ?thesis using g q d s 1 2 3 by blast
qed

text \<open>
  Two calls with the same arguments on the same calendar day and in the same zone, one
  second apart, return different values.
\<close>

theorem generateDate_counterexample:
  "mday (now quietWorld) = mday (now laterWorld) \<and>
   generateDate CONFIG 0 0 quietWorld \<noteq> generateDate CONFIG 0 0 laterWorld"
  by code_simp

lemma since_self [simp]: "since w w = []"
  by (simp add: since_def)

lemma since_console [simp]: "since w (console a w) = [Console a]"
  by (simp add: since_def console_def emit_def)

lemma since_console2 [simp]: "since w (console b (console a w)) = [Console a, Console b]"
  by (simp add: since_def console_def emit_def)

text \<open>
  C8 (as the code has it). For a name that is not a key of the pattern table and is not
  a name that every object inherits from \<open>Object.prototype\<close>, \<open>drawPattern\<close> throws no
  error: it prints a line that names the requested key and a line that lists the keys
  of the table, and returns. It calls no primitive, so it creates no commit and draws
  no other pattern.
\<close>

theorem drawPattern_unknown:
  assumes "map_of patterns name = None" and "name \<notin> set objectPrototypeKeys"
  shows "drawPattern sc patterns name startWeek w =
           (Inr (),
            console (''Available patterns: '' @ join '', '' (map fst patterns))
              (console (''Pattern '' @ [CHR 0x22] @ name @ [CHR 0x22] @ '' not found!'') w)) \<and>
         primitives (since w (snd (drawPattern sc patterns name startWeek w))) = []"
  using assms
  by (simp add: drawPattern_def property_def andThen_def act_def ret_def throw_def)

theorem drawPattern_unknown_witness:
  "map_of PATTERNS ''spiral'' = None \<and> ''spiral'' \<notin> set objectPrototypeKeys \<and>
   drawPattern CONFIG PATTERNS ''spiral'' 0 quietWorld =
     (Inr (),
      console ''Available patterns: heart, hi, smiley, checkerboard, wave''
        (console (''Pattern '' @ [CHR 0x22] @ ''spiral'' @ [CHR 0x22] @ '' not found!'') quietWorld)) \<and>
   primitives (since quietWorld (snd (drawPattern CONFIG PATTERNS ''spiral'' 0 quietWorld))) = []"
proof -
  have a: "map_of PATTERNS ''spiral'' = None" by (simp add: PATTERNS_def)
  have b: "''spiral'' \<notin> set objectPrototypeKeys" by (simp add: objectPrototypeKeys_def)
  have j: "join '', '' (map fst PATTERNS) = ''heart, hi, smiley, checkerboard, wave''"
    by (simp add: PATTERNS_def)
  from drawPattern_unknown [OF a b, of CONFIG 0 quietWorld] a b j
  show ?thesis by simp
qed

text \<open>
  For the unknown name \<open>spiral\<close>, \<open>drawPattern\<close> returns without an error and \<open>main\<close>
  ends without calling \<open>process.exit(1)\<close>.
\<close>

theorem drawPattern_unknown_counterexample:
  "map_of PATTERNS ''spiral'' = None \<and>
   fst (drawPattern CONFIG PATTERNS ''spiral'' 0 quietWorld) = Inr () \<and>
   fst (main CONFIG PATTERNS (Some ''spiral'') None quietWorld) = None"
  by (simp add: PATTERNS_def drawPattern_def property_def objectPrototypeKeys_def main_def
        pushCommits_def quietWorld_def ready_def allSucceed_def
        andThen_def act_def ret_def throw_def git_def invoke_def console_def emit_def Let_def)

lemma forEach_append:
  "forEach (xs @ ys) f s w =
     (case forEach xs f s w of (Inl e, w') \<Rightarrow> (Inl e, w') | (Inr s', w') \<Rightarrow> forEach ys f s' w')"
  by (induction xs arbitrary: s w) (auto split: prod.splits sum.splits)

lemma forEach_map: "forEach (map g xs) f s w = forEach xs (\<lambda>x. f (g x)) s w"
  by (induction xs arbitrary: s w) (auto split: prod.splits sum.splits)

lemma forEach_nested:
  "forEach weeks (\<lambda>week. forEach days (\<lambda>d. b week d)) s w =
   forEach (concat (map (\<lambda>week. map (\<lambda>d. (week, d)) days) weeks)) (\<lambda>(week, d). b week d) s w"
proof (induction weeks arbitrary: s w)
  case Nil
  show ?case by simp
next
  case (Cons week weeks)
  show ?case
    by (simp add: forEach_append forEach_map Cons.IH split: prod.splits sum.splits)
qed

lemma forEach_filter:
  assumes "\<And>x s w. x \<in> set xs \<Longrightarrow> \<not> Q x \<Longrightarrow> f x s w = (Inr s, w)"
  shows "forEach xs f s w = forEach (filter Q xs) f s w"
  using assms by (induction xs arbitrary: s w) (auto split: prod.splits sum.splits)

lemma commitDates_append [simp]: "commitDates (xs @ ys) = commitDates xs @ commitDates ys"
  by (induction xs rule: commitDates.induct) auto

lemma patternCreateCommit_ok:
  assumes "allOk w"
  shows "\<exists>w' dl. patternCreateCommit sc date w = (Inr (), w') \<and> allOk w' \<and> clock w' = clock w \<and>
           trace w' = trace w @ dl \<and> length dl = 3 \<and> commitDates dl = [date] \<and>
           localZone w' = localZone w"
  using assms
  by (simp add: patternCreateCommit_def writeData_def allOk_def
        andThen_def git_def invoke_def Let_def)

lemma commitLoop_ok:
  assumes "allOk w"
  shows "\<exists>w' dl. forEach xs (\<lambda>i cur. andThen (patternCreateCommit sc date) (\<lambda>_. ret (cur + 1))) cur w =
             (Inr (cur + length xs), w') \<and> allOk w' \<and> clock w' = clock w \<and>
           trace w' = trace w @ dl \<and> length dl = 3 * length xs \<and>
           commitDates dl = replicate (length xs) date \<and> localZone w' = localZone w"
  using assms
proof (induction xs arbitrary: cur w)
  case Nil
  then show ?case by simp
next
  case (Cons x xs)
  from patternCreateCommit_ok [OF Cons.prems, of sc date] obtain w1 d1 where
    1: "patternCreateCommit sc date w = (Inr (), w1)" "allOk w1" "clock w1 = clock w"
       "trace w1 = trace w @ d1" "length d1 = 3" "commitDates d1 = [date]"
       "localZone w1 = localZone w" by blast
  from Cons.IH [OF 1(2), of "cur + 1"] obtain w2 d2 where
    2: "forEach xs (\<lambda>i cur. andThen (patternCreateCommit sc date) (\<lambda>_. ret (cur + 1))) (cur + 1) w1 =
             (Inr (cur + 1 + length xs), w2)" "allOk w2" "clock w2 = clock w1"
       "trace w2 = trace w1 @ d2" "length d2 = 3 * length xs"
       "commitDates d2 = replicate (length xs) date" "localZone w2 = localZone w1" by blast
  have st: "andThen (patternCreateCommit sc date) (\<lambda>_. ret (cur + 1)) w = (Inr (cur + 1), w1)"
    using 1(1) by (simp add: andThen_def ret_def)
  have "forEach (x # xs) (\<lambda>i cur. andThen (patternCreateCommit sc date) (\<lambda>_. ret (cur + 1))) cur w =
      (Inr (cur + length (x # xs)), w2)"
    using st 2(1) by simp
  then show ?case
    using 1 2
    by (intro exI [of _ w2] exI [of _ "d1 @ d2"]) simp
qed

lemma drawCell_off:
  "\<not> cellOn pattern d week \<Longrightarrow> drawCell sc pattern startWeek week d cur w = (Inr cur, w)"
  by (simp add: drawCell_def ret_def)

lemma drawCell_on:
  assumes "cellOn pattern d week" "allOk w"
  shows "\<exists>w' dl. drawCell sc pattern startWeek week d cur w = (Inr (cur + s_commitsPerCell sc), w') \<and>
           allOk w' \<and> clock w' = clock w \<and>
           trace w' = trace w @ dl \<and> length dl = 3 * s_commitsPerCell sc + 1 \<and>
           commitDates dl =
             replicate (s_commitsPerCell sc)
               (generateDateAt sc (localZone w) (clock w (length (trace w))) (startWeek + int week) (int d)) \<and>
           localZone w' = localZone w"
proof -
  let ?date = "generateDate sc (startWeek + int week) (int d) w"
  from commitLoop_ok [OF assms(2), of "[0..<s_commitsPerCell sc]" sc ?date cur] obtain w1 d1 where
    1: "forEach [0..<s_commitsPerCell sc] (\<lambda>i cur. andThen (patternCreateCommit sc ?date) (\<lambda>_. ret (cur + 1))) cur w =
             (Inr (cur + s_commitsPerCell sc), w1)" "allOk w1" "clock w1 = clock w"
       "trace w1 = trace w @ d1" "length d1 = 3 * s_commitsPerCell sc"
       "commitDates d1 = replicate (s_commitsPerCell sc) ?date" "localZone w1 = localZone w" by auto
  have "drawCell sc pattern startWeek week d cur w =
      (Inr (cur + s_commitsPerCell sc), console ''Week, Day - commits'' w1)"
    using assms(1) 1(1) by (simp add: drawCell_def andThen_def gets_def act_def ret_def)
  moreover have "allOk (console ''Week, Day - commits'' w1)"
    using 1(2) by (simp add: allOk_def console_def emit_def)
  ultimately show ?thesis
    using 1
    by (intro exI [of _ "console ''Week, Day - commits'' w1"] exI [of _ "d1 @ [Console ''Week, Day - commits'']"])
       (simp add: console_def emit_def generateDate_def now_def)
qed

lemma map_enumerate_Suc:
  "map f (enumerate (Suc n) xs) = map (\<lambda>(i, x). f (Suc i, x)) (enumerate n xs)"
  by (induction xs arbitrary: n) auto

lemma cells_ok:
  assumes "allOk w" "\<forall>c \<in> set cells. cellOn pattern (snd c) (fst c)"
  shows "\<exists>w' dl. forEach cells (\<lambda>(week, d). drawCell sc pattern startWeek week d) cur w =
             (Inr (cur + s_commitsPerCell sc * length cells), w') \<and>
           trace w' = trace w @ dl \<and>
           commitDates dl =
             concat (map (\<lambda>(i, week, d). replicate (s_commitsPerCell sc)
                 (generateDateAt sc (localZone w) (clock w (length (trace w) + i * (3 * s_commitsPerCell sc + 1)))
                    (startWeek + int week) (int d)))
               (enumerate 0 cells))"
  using assms
proof (induction cells arbitrary: cur w)
  case Nil
  then show ?case by simp
next
  case (Cons c cells)
  obtain week d where c: "c = (week, d)" by (cases c)
  have on: "cellOn pattern d week" using Cons.prems(2) c by simp
  from drawCell_on [OF on Cons.prems(1), of sc startWeek cur] obtain w1 d1 where
    1: "drawCell sc pattern startWeek week d cur w = (Inr (cur + s_commitsPerCell sc), w1)"
       "allOk w1" "clock w1 = clock w" "trace w1 = trace w @ d1"
       "length d1 = 3 * s_commitsPerCell sc + 1"
       "commitDates d1 = replicate (s_commitsPerCell sc)
               (generateDateAt sc (localZone w) (clock w (length (trace w))) (startWeek + int week) (int d))"
       "localZone w1 = localZone w"
    by blast
  have rest: "\<forall>c \<in> set cells. cellOn pattern (snd c) (fst c)" using Cons.prems(2) by simp
  from Cons.IH [OF 1(2) rest, of "cur + s_commitsPerCell sc"] obtain w2 d2 where
    2: "forEach cells (\<lambda>(week, d). drawCell sc pattern startWeek week d) (cur + s_commitsPerCell sc) w1 =
             (Inr (cur + s_commitsPerCell sc + s_commitsPerCell sc * length cells), w2)"
       "trace w2 = trace w1 @ d2"
       "commitDates d2 =
             concat (map (\<lambda>(i, week, d). replicate (s_commitsPerCell sc)
                 (generateDateAt sc (localZone w1) (clock w1 (length (trace w1) + i * (3 * s_commitsPerCell sc + 1)))
                    (startWeek + int week) (int d)))
               (enumerate 0 cells))"
    by blast
  have idx: "length (trace w1) + i * (3 * s_commitsPerCell sc + 1) =
      length (trace w) + Suc i * (3 * s_commitsPerCell sc + 1)" for i
    using 1(4,5) by simp
  have r: "forEach (c # cells) (\<lambda>(week, d). drawCell sc pattern startWeek week d) cur w =
      (Inr (cur + s_commitsPerCell sc * length (c # cells)), w2)"
    using 1(1) 2(1) c by simp
  have t: "trace w2 = trace w @ d1 @ d2" using 1(4) 2(2) by simp
  have e2: "commitDates d2 =
      concat (map (\<lambda>(i, week, d). replicate (s_commitsPerCell sc)
                 (generateDateAt sc (localZone w) (clock w (length (trace w) + Suc i * (3 * s_commitsPerCell sc + 1)))
                    (startWeek + int week) (int d)))
               (enumerate 0 cells))"
    unfolding 2(3) 1(3) 1(7) idx ..
  have "commitDates (d1 @ d2) =
      concat (map (\<lambda>(i, week, d). replicate (s_commitsPerCell sc)
                 (generateDateAt sc (localZone w) (clock w (length (trace w) + i * (3 * s_commitsPerCell sc + 1)))
                    (startWeek + int week) (int d)))
               (enumerate 0 (c # cells)))"
    unfolding commitDates_append 1(6) e2 c
    by (simp add: map_enumerate_Suc del: mult_Suc)
  with r t show ?case by blast
qed


lemma length_filter_upt: "length (filter P [0..<n]) = (\<Sum>i<n. if P i then 1 else 0)"
  by (induction n) auto

lemma length_filter_nth: "length (filter P xs) = (\<Sum>i<length xs. if P (xs ! i) then 1 else 0)"
proof -
  have "filter P xs = filter P (map (\<lambda>i. xs ! i) [0..<length xs])" by (simp add: map_nth)
  also have "length \<dots> = length (filter (\<lambda>i. P (xs ! i)) [0..<length xs])"
    by (simp add: filter_map comp_def)
  finally show ?thesis by (simp add: length_filter_upt)
qed

lemma length_concat_upt: "length (concat (map f [0..<n])) = (\<Sum>i<n. length (f i))"
  by (induction n) auto

lemma onCells_count:
  assumes "patternGrid pattern"
  shows "length (onCells pattern) = length (filter (\<lambda>cell. cell = 1) (concat pattern))"
proof -
  let ?W = "length (hd pattern)"
  have len: "length pattern = 7" and rows: "\<And>d. d < 7 \<Longrightarrow> length (pattern ! d) = ?W"
    using assms by (auto simp: patternGrid_def)
  have on: "cellOn pattern d week \<longleftrightarrow> pattern ! d ! week = 1" if "d < 7" "week < ?W" for d week
    using that len rows by (simp add: cellOn_def)
  have "length (onCells pattern) =
      length (concat (map (\<lambda>week. filter (\<lambda>(week, d). cellOn pattern d week) (map (\<lambda>d. (week, d)) [0..<7])) [0..<?W]))"
    by (simp add: onCells_def filter_concat comp_def)
  also have "\<dots> = (\<Sum>week<?W. length (filter (\<lambda>(week, d). cellOn pattern d week) (map (\<lambda>d. (week, d)) [0..<7])))"
    by (rule length_concat_upt)
  also have "\<dots> = (\<Sum>week<?W. length (filter (\<lambda>d. cellOn pattern d week) [0..<7]))"
    by (simp add: filter_map comp_def)
  also have "\<dots> = (\<Sum>week<?W. \<Sum>d<7. if cellOn pattern d week then 1 else 0)"
    by (simp only: length_filter_upt)
  also have "\<dots> = (\<Sum>week<?W. \<Sum>d<7. if pattern ! d ! week = 1 then 1 else 0)"
    by (intro sum.cong refl) (simp add: on)
  also have "\<dots> = (\<Sum>d<7. \<Sum>week<?W. if pattern ! d ! week = 1 then 1 else 0)"
    by (rule sum.swap)
  also have "\<dots> = (\<Sum>d<7. length (filter (\<lambda>cell. cell = 1) (pattern ! d)))"
    by (intro sum.cong refl) (simp add: length_filter_nth rows)
  also have "\<dots> = length (concat (map (\<lambda>d. filter (\<lambda>cell. cell = 1) (pattern ! d)) [0..<7]))"
    by (simp only: length_concat_upt)
  also have "map (\<lambda>d. filter (\<lambda>cell. cell = 1) (pattern ! d)) [0..<7] = map (filter (\<lambda>cell. cell = 1)) pattern"
  proof -
    have "map (filter (\<lambda>cell. cell = 1)) pattern =
        map (filter (\<lambda>cell. cell = 1)) (map (\<lambda>d. pattern ! d) [0..<length pattern])"
      by (simp only: map_nth)
    then show ?thesis by (simp add: len comp_def)
  qed
  finally show ?thesis by (simp add: filter_concat)
qed

lemma onCells_set:
  "set (onCells pattern) = {(week, d). week < length (hd pattern) \<and> d < 7 \<and> cellOn pattern d week}"
  by (force simp: onCells_def)

lemma columnMajor_eq:
  "columnMajor = (\<lambda>a b. fst a < fst b \<or> (fst a = fst b \<and> snd a < snd b))"
  by (intro ext) (simp add: columnMajor_def)

lemma columns_sorted:
  "sorted_wrt columnMajor (concat (map (\<lambda>week. map (\<lambda>d. (week, d)) [0..<7]) [0..<n]))"
proof (induction n)
  case 0
  show ?case by simp
next
  case (Suc n)
  have "sorted_wrt columnMajor (map (\<lambda>d. (n, d)) [0..<7])"
    by (simp add: sorted_wrt_map columnMajor_eq)
  then show ?case
    using Suc unfolding columnMajor_eq by (auto simp: sorted_wrt_append)
qed

lemma onCells_sorted: "sorted_wrt columnMajor (onCells pattern)"
  unfolding onCells_def by (rule sorted_wrt_filter) (rule columns_sorted)

lemma concat_replicate_length:
  "(\<And>x. x \<in> set xs \<Longrightarrow> length (f x) = n) \<Longrightarrow> length (concat (map f xs)) = length xs * n"
  by (induction xs) auto

text \<open>
  C4. For every pattern grid (seven rows of one length) with \<open>k\<close> on-cells and every
  number \<open>n\<close> of commits per cell, \<open>drawPattern\<close>, when no primitive fails, creates
  exactly \<open>k * n\<close> commits. Their dates are, for each on-cell in column-major order
  (weeks ascending, days ascending within a week) and each on-cell once, \<open>n\<close> copies of
  the date \<open>generateDate(startWeek + week, day)\<close> gave when the loop reached the cell
  (the clock is read after the two opening console lines and the \<open>3 * n + 1\<close> events
  of every cell before).
\<close>

theorem drawPattern_expansion:
  assumes "map_of patterns name = Some pattern" and "patternGrid pattern" and "allOk w"
  shows "fst (drawPattern sc patterns name startWeek w) = Inr () \<and>
         commitDates (since w (snd (drawPattern sc patterns name startWeek w))) =
           concat (map (\<lambda>(i, week, d). replicate (s_commitsPerCell sc)
                     (generateDateAt sc (localZone w)
                        (clock w (length (trace w) + 2 + i * (3 * s_commitsPerCell sc + 1)))
                        (startWeek + int week) (int d)))
                   (enumerate 0 (onCells pattern))) \<and>
         length (commitDates (since w (snd (drawPattern sc patterns name startWeek w)))) =
           length (filter (\<lambda>cell. cell = 1) (concat pattern)) * s_commitsPerCell sc \<and>
         length (onCells pattern) = length (filter (\<lambda>cell. cell = 1) (concat pattern)) \<and>
         sorted_wrt columnMajor (onCells pattern) \<and>
         set (onCells pattern) =
           {(week, d). week < length (hd pattern) \<and> d < 7 \<and> pattern ! d ! week = 1}"
proof -
  let ?n = "s_commitsPerCell sc"
  let ?W = "length (hd pattern)"
  have len: "length pattern = 7" and rows: "\<And>d. d < 7 \<Longrightarrow> length (pattern ! d) = ?W"
    using assms(2) by (auto simp: patternGrid_def)
  obtain row0 rest where p: "pattern = row0 # rest" using len by (cases pattern) auto
  let ?w0 = "console ''Starting at week'' (console (''Drawing pattern: '' @ name) w)"
  have ok0: "allOk ?w0" using assms(3) by (simp add: allOk_def console_def emit_def)
  have t0: "trace ?w0 = trace w @ [Console (''Drawing pattern: '' @ name), Console ''Starting at week'']"
    "clock ?w0 = clock w" "localZone ?w0 = localZone w"
    by (simp_all add: console_def emit_def)
  have flat: "forEach [0..<?W] (\<lambda>week. forEach [0..<7] (\<lambda>d. drawCell sc pattern startWeek week d)) 0 ?w0 =
      forEach (onCells pattern) (\<lambda>(week, d). drawCell sc pattern startWeek week d) 0 ?w0"
    unfolding forEach_nested onCells_def
    by (rule forEach_filter) (auto simp: drawCell_off)
  have "\<forall>c \<in> set (onCells pattern). cellOn pattern (snd c) (fst c)"
    by (auto simp: onCells_def)
  from cells_ok [OF ok0 this, of sc startWeek 0] obtain w1 dl where
    1: "forEach (onCells pattern) (\<lambda>(week, d). drawCell sc pattern startWeek week d) 0 ?w0 =
          (Inr (0 + ?n * length (onCells pattern)), w1)"
       "trace w1 = trace ?w0 @ dl"
       "commitDates dl =
             concat (map (\<lambda>(i, week, d). replicate ?n
                 (generateDateAt sc (localZone ?w0) (clock ?w0 (length (trace ?w0) + i * (3 * ?n + 1)))
                    (startWeek + int week) (int d)))
               (enumerate 0 (onCells pattern)))"
    by blast
  have res: "drawPattern sc patterns name startWeek w = (Inr (), console ''Total commits created'' w1)"
    using assms(1) flat 1(1) p
    by (simp add: drawPattern_def property_def andThen_def act_def Let_def)
  have tr: "since w (console ''Total commits created'' w1) =
      [Console (''Drawing pattern: '' @ name), Console ''Starting at week''] @ dl @
      [Console ''Total commits created'']"
    using 1(2) t0 by (simp add: since_def console_def emit_def)
  have cd: "commitDates (since w (console ''Total commits created'' w1)) =
      concat (map (\<lambda>(i, week, d). replicate ?n
                 (generateDateAt sc (localZone w) (clock w (length (trace w) + 2 + i * (3 * ?n + 1)))
                    (startWeek + int week) (int d)))
               (enumerate 0 (onCells pattern)))"
    unfolding tr using 1(3) t0 by (simp del: mult_Suc)
  have on: "cellOn pattern d week \<longleftrightarrow> pattern ! d ! week = 1" if "d < 7" "week < ?W" for d week
    using that len rows by (simp add: cellOn_def)
  have st: "set (onCells pattern) = {(week, d). week < ?W \<and> d < 7 \<and> pattern ! d ! week = 1}"
    unfolding onCells_set using on by auto
  have ln: "length (commitDates (since w (console ''Total commits created'' w1))) =
      length (onCells pattern) * ?n"
    unfolding cd by (subst concat_replicate_length [where n = ?n]) auto
  show ?thesis
    unfolding res using cd ln onCells_count [OF assms(2)] onCells_sorted [of pattern] st
    by simp
qed

theorem drawPattern_expansion_witness:
  "map_of dotTable ''dot'' = Some dot \<and> patternGrid dot \<and> allOk quietWorld \<and>
   fst (drawPattern threePerCell dotTable ''dot'' 5 quietWorld) = Inr () \<and>
   commitDates (since quietWorld (snd (drawPattern threePerCell dotTable ''dot'' 5 quietWorld))) =
     replicate 3 (generateDateAt threePerCell (localZone quietWorld) (clock quietWorld 2) 5 0) \<and>
   generateDateAt threePerCell (localZone quietWorld) (clock quietWorld 2) 5 0 = \<lparr>sday = 19670, ssec = 5\<rparr>"
proof -
  have a: "map_of dotTable ''dot'' = Some dot" by (simp add: dotTable_def)
  have b: "patternGrid dot" by (simp add: patternGrid_def dot_def)
  have c: "allOk quietWorld" by (simp add: allOk_def quietWorld_def ready_def allSucceed_def)
  have o: "onCells dot = [(0, 0)]" by code_simp
  have n: "s_commitsPerCell threePerCell = 3" by (simp add: threePerCell_def)
  have t: "length (trace quietWorld) = 0" by (simp add: quietWorld_def ready_def)
  have g: "generateDateAt threePerCell (localZone quietWorld) (clock quietWorld 2) 5 0 = \<lparr>sday = 19670, ssec = 5\<rparr>"
    by code_simp
  note T = drawPattern_expansion [OF a b c, of threePerCell 5]
  have 1: "fst (drawPattern threePerCell dotTable ''dot'' 5 quietWorld) = Inr ()"
    using T [THEN conjunct1] .
  have 2: "commitDates (since quietWorld (snd (drawPattern threePerCell dotTable ''dot'' 5 quietWorld))) =
     replicate 3 (generateDateAt threePerCell (localZone quietWorld) (clock quietWorld 2) 5 0)"
    using T [THEN conjunct2, THEN conjunct1] o n t by (simp add: numeral_3_eq_3 numeral_2_eq_2)
  from a b c g 1 2 show ?thesis by blast
qed

section \<open>The dry run\<close>

lemma primitives_append [simp]: "primitives (xs @ ys) = primitives xs @ primitives ys"
  by (induction xs rule: primitives.induct) auto








section \<open>Properties of the backfill\<close>

lemma floor_unit_mult:
  fixes r :: rat
  assumes "0 \<le> r" "r < 1" "0 < n"
  shows "0 \<le> \<lfloor>r * of_int n\<rfloor> \<and> \<lfloor>r * of_int n\<rfloor> < n"
proof -
  have "0 \<le> r * of_int n" using assms by simp
  moreover have "r * of_int n < of_int n" using assms by simp
  ultimately show ?thesis by (simp add: floor_less_iff)
qed

lemma commitTime_day:
  fixes r1 r2 :: rat
  assumes "0 \<le> r1" "r1 < 1" "0 \<le> r2" "r2 < 1" and "z (mday current) = None"
  shows "mday (setMinute z \<lfloor>r2 * 60\<rfloor> (setHour z (9 + \<lfloor>r1 * 12\<rfloor>) current)) = mday current"
proof -
  from floor_unit_mult [OF assms(1,2), of 12] have h: "0 \<le> \<lfloor>r1 * 12\<rfloor>" "\<lfloor>r1 * 12\<rfloor> < 12" by simp_all
  from floor_unit_mult [OF assms(3,4), of 60] have m: "0 \<le> \<lfloor>r2 * 60\<rfloor>" "\<lfloor>r2 * 60\<rfloor> < 60" by simp_all
  define H where "H = 9 + \<lfloor>r1 * 12\<rfloor>"
  define M where "M = \<lfloor>r2 * 60\<rfloor>"
  define x where "x = int (mms current mod 3600000)"
  have H: "9 \<le> H" "H \<le> 20" using h by (simp_all add: H_def)
  have M: "0 \<le> M" "M \<le> 59" using m by (simp_all add: M_def)
  have x: "0 \<le> x" "x < 3600000" by (simp_all add: x_def)
  define v where "v = H * 3600000 + x"
  have v: "0 \<le> v" "v < 86400000" using H x by (simp_all add: v_def)
  have s1: "setHour z H current = \<lparr>mday = mday current, mms = nat v\<rparr>"
    using v assms(5) by (simp add: setHour_def atMillis_def resolveLocal_def v_def x_def)
  have vd: "v div 3600000 = H" using x by (simp add: v_def)
  have nd: "int (nat v div 3600000) = H"
    using v vd by (simp add: zdiv_int [symmetric])
  define y where "y = int (nat v mod 60000)"
  have y: "0 \<le> y" "y < 60000" by (simp_all add: y_def)
  define u where "u = H * 3600000 + M * 60000 + y"
  have u: "0 \<le> u" "u < 86400000" using H M y by (simp_all add: u_def)
  have "setMinute z M (setHour z H current) = \<lparr>mday = mday current, mms = nat u\<rparr>"
    unfolding s1 using u nd assms(5) by (simp add: setMinute_def atMillis_def resolveLocal_def u_def y_def)
  then show ?thesis by (simp add: H_def M_def)
qed


lemma random_unit: "unitRandoms w \<Longrightarrow> 0 \<le> fst (random w) \<and> fst (random w) < 1"
  by (simp add: unitRandoms_def random_def)

lemma backfillDay_step:
  obtains r1 r2 w2 x w3 where
    "random w = (r1, snd (random w))" "random (snd (random w)) = (r2, w2)"
    "extends P w w2"
    "unitRandoms w \<longrightarrow> 0 \<le> r1 \<and> r1 < 1 \<and> 0 \<le> r2 \<and> r2 < 1"
    "createCommit cfg (setMinute z \<lfloor>r2 * 60\<rfloor> (setHour z (9 + \<lfloor>r1 * 12\<rfloor>) current)) None w2 = (x, w3)"
proof -
  obtain r1 w1 where r1: "random w = (r1, w1)" by (cases "random w")
  obtain r2 w2 where r2: "random w1 = (r2, w2)" by (cases "random w1")
  obtain x w3 where c: "createCommit cfg (setMinute z \<lfloor>r2 * 60\<rfloor> (setHour z (9 + \<lfloor>r1 * 12\<rfloor>) current)) None w2 = (x, w3)"
    by (cases "createCommit cfg (setMinute z \<lfloor>r2 * 60\<rfloor> (setHour z (9 + \<lfloor>r1 * 12\<rfloor>) current)) None w2")
  have e1: "extends P w w1" using extends_random [of P w] r1 by simp
  have e2: "extends P w1 w2" using extends_random [of P w1] r2 by simp
  have u1: "unitRandoms w \<longrightarrow> 0 \<le> r1 \<and> r1 < 1" using random_unit [of w] r1 by simp
  have "unitRandoms w \<longrightarrow> unitRandoms w1" using e1 by (simp add: extends_unitRandoms)
  then have u2: "unitRandoms w \<longrightarrow> 0 \<le> r2 \<and> r2 < 1" using random_unit [of w1] r2 by simp
  show ?thesis
    using that [of r1 r2 w2 x w3] r1 r2 c e1 e2 u1 u2 by (auto intro: extends_trans)
qed

lemma backfillDay_unfold:
  assumes "random w = (r1, w1)" "random w1 = (r2, w2)"
    "createCommit cfg (setMinute z \<lfloor>r2 * 60\<rfloor> (setHour z (9 + \<lfloor>r1 * 12\<rfloor>) current)) None w2 = (x, w3)"
  shows "backfillDay cfg z current (Suc k) st0 w =
     (case x of
        Inr result \<Rightarrow> backfillDay cfg z current k (st0\<lparr>totalCommits := totalCommits st0 + 1\<rparr>) (sleep 50 w3)
      | Inl e \<Rightarrow> backfillDay cfg z current k (st0\<lparr>errors := errors st0 + 1\<rparr>)
                 (logger Error ''Backfill commit failed'' w3))"
  using assms by (simp add: Let_def)

lemma backfillDay_stats:
  "totalDays (fst (backfillDay cfg z current k st0 w)) = totalDays st0 \<and>
   skippedDays (fst (backfillDay cfg z current k st0 w)) = skippedDays st0"
proof (induction k arbitrary: st0 w)
  case 0
  show ?case by simp
next
  case (Suc k)
  obtain r1 r2 w2 x w3 where s:
    "random w = (r1, snd (random w))" "random (snd (random w)) = (r2, w2)"
    "createCommit cfg (setMinute z \<lfloor>r2 * 60\<rfloor> (setHour z (9 + \<lfloor>r1 * 12\<rfloor>) current)) None w2 = (x, w3)"
    by (rule backfillDay_step [of w _ cfg z current])
  show ?case
    unfolding backfillDay_unfold [OF s]
    using Suc.IH [of "st0\<lparr>totalCommits := totalCommits st0 + 1\<rparr>" "sleep 50 w3"]
      Suc.IH [of "st0\<lparr>errors := errors st0 + 1\<rparr>" "logger Error ''Backfill commit failed'' w3"]
    by (cases x) simp_all
qed

lemma backfillDay_extends:
  assumes "\<And>e. inPhase Committing e \<Longrightarrow>
             (unitRandoms w \<and> z (mday current) = None \<longrightarrow> onDay (mday current) e) \<Longrightarrow> P e"
  shows "extends P w (snd (backfillDay cfg z current k st0 w))"
  using assms
proof (induction k arbitrary: st0 w)
  case 0
  show ?case by (simp add: extends_refl)
next
  case (Suc k)
  obtain r1 r2 w2 x w3 where s:
    "random w = (r1, snd (random w))" "random (snd (random w)) = (r2, w2)"
    "createCommit cfg (setMinute z \<lfloor>r2 * 60\<rfloor> (setHour z (9 + \<lfloor>r1 * 12\<rfloor>) current)) None w2 = (x, w3)"
    and e: "extends P w w2"
    and u: "unitRandoms w \<longrightarrow> 0 \<le> r1 \<and> r1 < 1 \<and> 0 \<le> r2 \<and> r2 < 1"
    by (rule backfillDay_step [of w P cfg z current])
  let ?t = "setMinute z \<lfloor>r2 * 60\<rfloor> (setHour z (9 + \<lfloor>r1 * 12\<rfloor>) current)"
  have d: "unitRandoms w \<and> z (mday current) = None \<longrightarrow> mday ?t = mday current"
    using u commitTime_day [of r1 r2 z current] by simp
  have "extends P w2 (snd (createCommit cfg ?t None w2))"
  proof (rule extends_createCommit)
    fix ev assume "inPhase Committing ev" "onDay (mday ?t) ev"
    then show "P ev" using d by (intro Suc.prems) auto
  qed
  then have e3: "extends P w w3" using e s(3) by (auto intro: extends_trans)
  have un: "unitRandoms w' = unitRandoms w" if "extends P w w'" for w'
    using that by (rule extends_unitRandoms)
  have lg: "extends P w3 (logger Error ''Backfill commit failed'' w3)"
    by (rule extends_logger) (rule Suc.prems, simp_all add: inPhase_def onDay_def)
  have sl: "extends P w3 (sleep 50 w3)"
    by (rule extends_sleep) (rule Suc.prems, simp_all add: inPhase_def onDay_def)
  have a: "extends P w (logger Error ''Backfill commit failed'' w3)"
    using e3 lg by (rule extends_trans)
  have b: "extends P w (sleep 50 w3)"
    using e3 sl by (rule extends_trans)
  have ia: "extends P (logger Error ''Backfill commit failed'' w3)
      (snd (backfillDay cfg z current k st (logger Error ''Backfill commit failed'' w3)))" for st
    by (rule Suc.IH) (rule Suc.prems, simp_all add: un [OF a])
  have ib: "extends P (sleep 50 w3) (snd (backfillDay cfg z current k st (sleep 50 w3)))" for st
    by (rule Suc.IH) (rule Suc.prems, simp_all add: un [OF b])
  show ?case
    unfolding backfillDay_unfold [OF s]
    using a b ia ib by (cases x) (auto intro: extends_trans)
qed

lemma backfillDay_attempts:
  "totalCommits (fst (backfillDay cfg z current k st0 w)) + errors (fst (backfillDay cfg z current k st0 w)) =
     totalCommits st0 + errors st0 + k"
proof (induction k arbitrary: st0 w)
  case 0
  show ?case by simp
next
  case (Suc k)
  obtain r1 r2 w2 x w3 where s:
    "random w = (r1, snd (random w))" "random (snd (random w)) = (r2, w2)"
    "createCommit cfg (setMinute z \<lfloor>r2 * 60\<rfloor> (setHour z (9 + \<lfloor>r1 * 12\<rfloor>) current)) None w2 = (x, w3)"
    by (rule backfillDay_step [of w _ cfg z current])
  show ?case
    unfolding backfillDay_unfold [OF s]
    using Suc.IH [of "st0\<lparr>totalCommits := totalCommits st0 + 1\<rparr>" "sleep 50 w3"]
      Suc.IH [of "st0\<lparr>errors := errors st0 + 1\<rparr>" "logger Error ''Backfill commit failed'' w3"]
    by (cases x) simp_all
qed

lemma backfillDay_errors:
  assumes "allOk w"
  shows "errors (fst (backfillDay cfg z current k st0 w)) = errors st0"
  using assms
proof (induction k arbitrary: st0 w)
  case 0
  show ?case by simp
next
  case (Suc k)
  obtain r1 r2 w2 x w3 where s:
    "random w = (r1, snd (random w))" "random (snd (random w)) = (r2, w2)"
    "createCommit cfg (setMinute z \<lfloor>r2 * 60\<rfloor> (setHour z (9 + \<lfloor>r1 * 12\<rfloor>) current)) None w2 = (x, w3)"
    and e: "extends (\<lambda>e. True) w w2"
    by (rule backfillDay_step [of w "\<lambda>e. True" cfg z current])
  have ok2: "allOk w2" using e Suc.prems by (simp add: extends_allOk)
  from createCommit_ok [OF ok2, of cfg "setMinute z \<lfloor>r2 * 60\<rfloor> (setHour z (9 + \<lfloor>r1 * 12\<rfloor>) current)" None] s(3)
  obtain res where x: "x = Inr res" by auto
  have "extends (\<lambda>e. True) w2 w3"
    using extends_createCommit [of "setMinute z \<lfloor>r2 * 60\<rfloor> (setHour z (9 + \<lfloor>r1 * 12\<rfloor>) current)" "\<lambda>e. True" w2 cfg None] s(3) by simp
  moreover have "extends (\<lambda>e. True) w3 (sleep 50 w3)"
    by (rule extends_sleep) simp
  ultimately have "allOk (sleep 50 w3)" using ok2 by (simp add: extends_allOk)
  from Suc.IH [OF this, of "st0\<lparr>totalCommits := totalCommits st0 + 1\<rparr>"]
  show ?case
    unfolding backfillDay_unfold [OF s] x by simp
qed

lemma weekend_weekday: "weekendDay (mday t) \<longleftrightarrow> weekday t = 0 \<or> weekday t = 6"
  by (simp add: weekendDay_def weekday_def)

lemma backfillLoop_done:
  "\<not> isSameOrBefore cur endD \<Longrightarrow> backfillLoop cfg z skip mn mx endD cur st0 w = (st0, w)"
  by (subst backfillLoop.simps) simp

lemma backfillLoop_skip:
  "isSameOrBefore cur endD \<Longrightarrow> skip \<Longrightarrow> weekendDay (mday cur) \<Longrightarrow>
   backfillLoop cfg z skip mn mx endD cur st0 w =
     backfillLoop cfg z skip mn mx endD (addDays z 1 cur)
       (st0\<lparr>skippedDays := skippedDays st0 + 1\<rparr>) (logger Debug ''Skipping weekend'' w)"
  by (subst backfillLoop.simps) (simp add: weekend_weekday Let_def)

lemma backfillLoop_day:
  "isSameOrBefore cur endD \<Longrightarrow> \<not> (skip \<and> weekendDay (mday cur)) \<Longrightarrow>
   randomCount mn mx w = (n, w1) \<Longrightarrow>
   backfillDay cfg z cur (nat n) st0 (logger Info ''Processing day'' w1) = (st1, w2) \<Longrightarrow>
   backfillLoop cfg z skip mn mx endD cur st0 w =
     backfillLoop cfg z skip mn mx endD (addDays z 1 cur)
       (st1\<lparr>totalDays := totalDays st1 + 1\<rparr>)
       (if (totalDays st1 + 1) mod 7 = 0 then logger Info ''Backfill progress'' w2 else w2)"
  by (subst backfillLoop.simps) (auto simp: weekend_weekday Let_def)

lemma randomCount_fixed:
  assumes "unitRandoms w" "mn = mx"
  shows "fst (randomCount mn mx w) = mn"
proof -
  have "0 \<le> fst (random w) \<and> fst (random w) < 1" using assms(1) by (rule random_unit)
  then have "\<lfloor>fst (random w)\<rfloor> = 0" by (simp add: floor_eq_iff)
  then show ?thesis
    using assms(2) by (cases "random w") (simp add: randomCount_def)
qed

lemma extends_randomCount: "extends P w (snd (randomCount mn mx w))"
  using extends_random [of P w] by (cases "random w") (simp add: randomCount_def)

lemma bfKind_plain: "eventDay e = None \<Longrightarrow> phaseOf e = None \<Longrightarrow> bfKind skip e"
  by (simp add: bfKind_def inPhase_def offWeekend_def)

lemma resolveLocal_plain: "z (mday t) = None \<Longrightarrow> resolveLocal z t = t"
  by (simp add: resolveLocal_def)

lemma resolveLocal_later: "mday t \<le> mday (resolveLocal z t)"
  by (simp add: resolveLocal_def atMillis_def pos_imp_zdiv_nonneg_iff split: option.splits prod.splits)

lemma addDays_later: "mday t + n \<le> mday (addDays z n t)"
  using resolveLocal_later [of "t\<lparr>mday := mday t + n\<rparr>" z] by (simp add: addDays_def)

lemma addDays_plain: "z (mday t + n) = None \<Longrightarrow> addDays z n t = t\<lparr>mday := mday t + n\<rparr>"
  by (simp add: addDays_def resolveLocal_plain)

lemma backfillLoop_main:
  assumes "mday cur \<le> mday endD \<longrightarrow> mms cur \<le> mms endD"
    and "\<forall>d. mday cur \<le> d \<and> d \<le> mday endD \<longrightarrow> z d = None"
  shows "skippedDays (fst (backfillLoop cfg z skip mn mx endD cur st0 w)) =
           skippedDays st0 + (if skip then length (filter weekendDay [mday cur..mday endD]) else 0) \<and>
         totalDays (fst (backfillLoop cfg z skip mn mx endD cur st0 w)) +
           skippedDays (fst (backfillLoop cfg z skip mn mx endD cur st0 w)) =
           totalDays st0 + skippedDays st0 + nat (mday endD + 1 - mday cur) \<and>
         totalDays st0 \<le> totalDays (fst (backfillLoop cfg z skip mn mx endD cur st0 w)) \<and>
         (unitRandoms w \<longrightarrow> extends (bfKind skip) w (snd (backfillLoop cfg z skip mn mx endD cur st0 w))) \<and>
         (unitRandoms w \<and> mn = mx \<and> 0 \<le> mn \<longrightarrow>
            totalCommits (fst (backfillLoop cfg z skip mn mx endD cur st0 w)) +
            errors (fst (backfillLoop cfg z skip mn mx endD cur st0 w)) =
              totalCommits st0 + errors st0 +
              nat mn * (totalDays (fst (backfillLoop cfg z skip mn mx endD cur st0 w)) - totalDays st0)) \<and>
         (allOk w \<longrightarrow> errors (fst (backfillLoop cfg z skip mn mx endD cur st0 w)) = errors st0)"
  using assms
proof (induction "nat (mday endD + 1 - mday cur)" arbitrary: cur st0 w)
  case 0
  then have "\<not> isSameOrBefore cur endD" by (simp add: isSameOrBefore_def)
  then have eq: "backfillLoop cfg z skip mn mx endD cur st0 w = (st0, w)" by (rule backfillLoop_done)
  have "[mday cur..mday endD] = []" using 0 by simp
  then show ?case unfolding eq using 0 by (simp add: extends_refl)
next
  case (Suc n)
  then have le: "mday cur \<le> mday endD" by linarith
  then have sb: "isSameOrBefore cur endD" using Suc.prems by (auto simp: isSameOrBefore_def)
  have zc: "z (mday cur) = None" using le Suc.prems(2) by simp
  let ?next = "addDays z 1 cur"
  have later: "mday cur + 1 \<le> mday ?next" by (rule addDays_later)
  have plain: "?next = cur\<lparr>mday := mday cur + 1\<rparr>" if "mday cur < mday endD"
    using that Suc.prems(2) by (simp add: addDays_plain)
  have n: "n = nat (mday endD + 1 - mday ?next)"
  proof (cases "mday cur < mday endD")
    case True
    then show ?thesis using Suc.hyps(2) plain by simp
  next
    case False
    then show ?thesis using Suc.hyps(2) le later by simp
  qed
  have m: "mday ?next \<le> mday endD \<longrightarrow> mms ?next \<le> mms endD"
  proof (cases "mday cur < mday endD")
    case True
    then show ?thesis using Suc.prems(1) plain by simp
  next
    case False
    then show ?thesis using later by simp
  qed
  have zn: "\<forall>d. mday ?next \<le> d \<and> d \<le> mday endD \<longrightarrow> z d = None"
    using Suc.prems(2) later by simp
  have up: "[mday cur..mday endD] = mday cur # [mday ?next..mday endD]"
  proof (cases "mday cur < mday endD")
    case True
    then show ?thesis using le plain by (simp add: upto_rec1)
  next
    case False
    then show ?thesis using le later by (simp add: upto_rec1)
  qed
  have cnt: "nat (mday endD + 1 - mday cur) = Suc (nat (mday endD + 1 - mday ?next))"
    using n Suc.hyps(2) by simp
  show ?case
  proof (cases "skip \<and> weekendDay (mday cur)")
    case True
    let ?st = "st0\<lparr>skippedDays := skippedDays st0 + 1\<rparr>"
    let ?w = "logger Debug ''Skipping weekend'' w"
    have eq: "backfillLoop cfg z skip mn mx endD cur st0 w = backfillLoop cfg z skip mn mx endD ?next ?st ?w"
      using sb True by (simp add: backfillLoop_skip)
    have e: "extends (bfKind skip) w ?w"
      by (rule extends_logger) (simp add: bfKind_plain)
    have u: "unitRandoms ?w = unitRandoms w" "allOk ?w = allOk w"
      using e by (simp_all add: extends_unitRandoms extends_allOk)
    note ih = Suc.hyps(1) [OF n m zn, of ?st ?w]
    show ?thesis
      unfolding eq up cnt using ih True e u
      by (auto intro: extends_trans)
  next
    case False
    obtain k w1 where rc: "randomCount mn mx w = (k, w1)" by (cases "randomCount mn mx w")
    let ?w1 = "logger Info ''Processing day'' w1"
    obtain st1 w2 where bd: "backfillDay cfg z cur (nat k) st0 ?w1 = (st1, w2)"
      by (cases "backfillDay cfg z cur (nat k) st0 ?w1")
    let ?st = "st1\<lparr>totalDays := totalDays st1 + 1\<rparr>"
    let ?w = "if (totalDays st1 + 1) mod 7 = 0 then logger Info ''Backfill progress'' w2 else w2"
    have eq: "backfillLoop cfg z skip mn mx endD cur st0 w = backfillLoop cfg z skip mn mx endD ?next ?st ?w"
      using sb False rc bd by (rule backfillLoop_day)
    have st1: "totalDays st1 = totalDays st0" "skippedDays st1 = skippedDays st0"
      using backfillDay_stats [of cfg z cur "nat k" st0 ?w1] bd by simp_all
    have e1: "extends (bfKind skip) w w1"
      using extends_randomCount [of "bfKind skip" w mn mx] rc by simp
    have e2: "extends (bfKind skip) w1 ?w1"
      by (rule extends_logger) (simp add: bfKind_plain)
    have e12: "extends (bfKind skip) w ?w1" using e1 e2 by (rule extends_trans)
    have u1: "unitRandoms ?w1 = unitRandoms w" "allOk ?w1 = allOk w"
      using e12 by (simp_all add: extends_unitRandoms extends_allOk)
    have e3: "unitRandoms w \<Longrightarrow> extends (bfKind skip) ?w1 w2"
    proof -
      assume ur: "unitRandoms w"
      have "extends (bfKind skip) ?w1 (snd (backfillDay cfg z cur (nat k) st0 ?w1))"
      proof (rule backfillDay_extends)
        fix ev assume a: "inPhase Committing ev"
          "unitRandoms ?w1 \<and> z (mday cur) = None \<longrightarrow> onDay (mday cur) ev"
        then have "onDay (mday cur) ev" using ur u1 zc by simp
        then show "bfKind skip ev"
          using a(1) False by (auto simp: bfKind_def offWeekend_def onDay_def)
      qed
      then show ?thesis using bd by simp
    qed
    have e4: "extends (bfKind skip) w2 ?w"
      by (auto simp: extends_refl intro!: extends_logger bfKind_plain)
    have ew: "unitRandoms w \<Longrightarrow> extends (bfKind skip) w ?w"
      using e12 e3 e4 by (blast intro: extends_trans)
    have uw: "unitRandoms w \<Longrightarrow> unitRandoms ?w"
      using ew by (simp add: extends_unitRandoms)
    have tc: "unitRandoms w \<Longrightarrow> mn = mx \<Longrightarrow>
        totalCommits st1 + errors st1 = totalCommits st0 + errors st0 + nat mn"
    proof -
      assume a: "unitRandoms w" "mn = mx"
      have "k = mn" using randomCount_fixed [OF a] rc by simp
      then show ?thesis
        using backfillDay_attempts [of cfg z cur "nat k" st0 ?w1] bd by simp
    qed
    have f2: "extends (\<lambda>e. True) ?w1 w2"
      using backfillDay_extends [where P = "\<lambda>e. True" and w = ?w1 and current = cur and cfg = cfg
          and z = z and k = "nat k" and ?st0.0 = st0] bd by simp
    have f3: "extends (\<lambda>e. True) w2 ?w"
      by (auto simp: extends_refl intro!: extends_logger)
    have ok: "allOk w \<Longrightarrow> allOk ?w"
      using f2 f3 u1 by (simp add: extends_allOk)
    have er: "allOk w \<Longrightarrow> errors st1 = errors st0"
      using backfillDay_errors [of ?w1 cfg z cur "nat k" st0] bd u1 by simp
    note ih = Suc.hyps(1) [OF n m zn, of ?st ?w]
    let ?R = "backfillLoop cfg z skip mn mx endD ?next ?st ?w"
    have c1: "skippedDays (fst ?R) =
        skippedDays st0 + (if skip then length (filter weekendDay [mday cur..mday endD]) else 0)"
      using ih False st1 unfolding up by auto
    have c2: "totalDays (fst ?R) + skippedDays (fst ?R) =
        totalDays st0 + skippedDays st0 + nat (mday endD + 1 - mday cur)"
      using ih st1 unfolding cnt by simp
    have c3: "totalDays st0 < totalDays (fst ?R)"
      using ih st1 by simp
    have c4: "unitRandoms w \<longrightarrow> extends (bfKind skip) w (snd ?R)"
      using ih ew uw by (blast intro: extends_trans)
    have c5: "unitRandoms w \<and> mn = mx \<and> 0 \<le> mn \<longrightarrow>
        totalCommits (fst ?R) + errors (fst ?R) =
          totalCommits st0 + errors st0 + nat mn * (totalDays (fst ?R) - totalDays st0)"
    proof
      assume a: "unitRandoms w \<and> mn = mx \<and> 0 \<le> mn"
      then have "totalCommits (fst ?R) + errors (fst ?R) =
          totalCommits ?st + errors ?st + nat mn * (totalDays (fst ?R) - totalDays ?st)"
        using ih uw by simp
      moreover have "totalCommits ?st + errors ?st = totalCommits st0 + errors st0 + nat mn"
        using tc a by simp
      moreover have "totalDays (fst ?R) - totalDays st0 = Suc (totalDays (fst ?R) - totalDays ?st)"
        using c3 st1 ih by simp
      ultimately show "totalCommits (fst ?R) + errors (fst ?R) =
          totalCommits st0 + errors st0 + nat mn * (totalDays (fst ?R) - totalDays st0)"
        by simp
    qed
    have c6: "allOk w \<longrightarrow> errors (fst ?R) = errors st0"
      using ih ok er by simp
    show ?thesis
      unfolding eq using c1 c2 c3 c4 c5 c6 by simp
  qed
qed

lemma commitDates_offWeekend:
  "list_all (bfKind True) d \<Longrightarrow> \<forall>x \<in> set (commitDates d). \<not> weekendDay (sday x)"
  by (induction d rule: commitDates.induct) (auto simp: bfKind_def offWeekend_def)

lemma written_offWeekend:
  "list_all (bfKind True) d \<Longrightarrow> \<forall>p \<in> set (written d). \<not> weekendDay (sday (p_date p))"
  by (induction d rule: written.induct) (auto simp: bfKind_def offWeekend_def)

text \<open>
  The counts of a backfill in a zone that skips no local time on the first day, on the
  last day and on the days between them. For the dates \<open>s\<close> and \<open>e\<close>,
  \<open>backfillContributions\<close> returns statistics with \<open>totalDays + skippedDays\<close> equal to the
  number of days from \<open>s\<close> to \<open>e\<close> inclusive. With \<open>skipWeekends\<close> true, \<open>skippedDays\<close> is
  the number of Saturdays and Sundays in the range and no commit is created and no
  marker written for a Saturday or a Sunday (the random numbers being in \<open>[0, 1)\<close>);
  without it no day is skipped. With \<open>minCommits = maxCommits = m\<close>, every processed day
  makes \<open>m\<close> attempts, each counted in \<open>totalCommits\<close> or in \<open>errors\<close>; so without failures
  (no error is counted when every primitive succeeds) \<open>totalCommits = m * totalDays\<close>.
\<close>

theorem backfill_counts:
  assumes "plainDays (localZone w) s e"
  shows
  "\<exists>st w'. backfillContributions cfg (momentOfDate (localZone w) s) (momentOfDate (localZone w) e) opts w
       = (Inr st, w') \<and>
     totalDays st + skippedDays st = nat (e - s + 1) \<and>
     (nullish (o_skipWeekends opts) (backfill_skipWeekends cfg) \<longrightarrow>
        skippedDays st = length (filter weekendDay [s..e]) \<and>
        (unitRandoms w \<longrightarrow>
           (\<forall>x \<in> set (commitDates (since w w')). \<not> weekendDay (sday x)) \<and>
           (\<forall>p \<in> set (written (since w w')). \<not> weekendDay (sday (p_date p))))) \<and>
     (\<not> nullish (o_skipWeekends opts) (backfill_skipWeekends cfg) \<longrightarrow> skippedDays st = 0) \<and>
     (unitRandoms w \<and> 0 \<le> m \<and>
      nullish (o_minCommits opts) (backfill_minCommits cfg) = m \<and>
      nullish (o_maxCommits opts) (backfill_maxCommits cfg) = m \<longrightarrow>
        int (totalCommits st) + int (errors st) = m * int (totalDays st)) \<and>
     (allOk w \<longrightarrow> errors st = 0)"
proof -
  let ?z = "localZone w"
  let ?skip = "nullish (o_skipWeekends opts) (backfill_skipWeekends cfg)"
  let ?mn = "nullish (o_minCommits opts) (backfill_minCommits cfg)"
  let ?mx = "nullish (o_maxCommits opts) (backfill_maxCommits cfg)"
  let ?w1 = "logger Info ''Starting backfill operation'' w"
  let ?st0 = "\<lparr>totalDays = 0, totalCommits = 0, skippedDays = 0, errors = 0\<rparr>"
  let ?R = "backfillLoop cfg ?z ?skip ?mn ?mx (momentOfDate ?z e) (momentOfDate ?z s) ?st0 ?w1"
  have eq: "backfillContributions cfg (momentOfDate ?z s) (momentOfDate ?z e) opts w =
      (Inr (fst ?R), logger Info ''Backfill completed'' (snd ?R))"
    by (simp add: backfillContributions_def Let_def split: prod.splits)
  have ms: "momentOfDate ?z s = \<lparr>mday = s, mms = 0\<rparr>" "momentOfDate ?z e = \<lparr>mday = e, mms = 0\<rparr>"
    using assms by (simp_all add: plainDays_def momentOfDate_def resolveLocal_plain)
  have m: "mday (momentOfDate ?z s) \<le> mday (momentOfDate ?z e) \<longrightarrow>
      mms (momentOfDate ?z s) \<le> mms (momentOfDate ?z e)"
    by (simp add: ms)
  have d: "mday (momentOfDate ?z s) = s" "mday (momentOfDate ?z e) = e" by (simp_all add: ms)
  have zr: "\<forall>d. mday (momentOfDate ?z s) \<le> d \<and> d \<le> mday (momentOfDate ?z e) \<longrightarrow> ?z d = None"
    using assms by (simp add: plainDays_def d)
  note L = backfillLoop_main [OF m zr, of cfg ?skip ?mn ?mx ?st0 ?w1]
  have e1: "extends (bfKind ?skip) w ?w1"
    by (rule extends_logger) (simp add: bfKind_plain)
  have u: "unitRandoms ?w1 = unitRandoms w" "allOk ?w1 = allOk w"
    using e1 by (simp_all add: extends_unitRandoms extends_allOk)
  have e3: "extends (bfKind ?skip) (snd ?R) (logger Info ''Backfill completed'' (snd ?R))"
    by (rule extends_logger) (simp add: bfKind_plain)
  have ex: "unitRandoms w \<Longrightarrow> extends (bfKind ?skip) w (logger Info ''Backfill completed'' (snd ?R))"
    using L u e1 e3 by (blast intro: extends_trans)
  have wk: "?skip \<Longrightarrow> unitRandoms w \<Longrightarrow>
      (\<forall>x \<in> set (commitDates (since w (logger Info ''Backfill completed'' (snd ?R)))). \<not> weekendDay (sday x)) \<and>
      (\<forall>p \<in> set (written (since w (logger Info ''Backfill completed'' (snd ?R)))). \<not> weekendDay (sday (p_date p)))"
  proof -
    assume a: "?skip" "unitRandoms w"
    from ex [OF a(2)] obtain dl where dl: "trace (logger Info ''Backfill completed'' (snd ?R)) = trace w @ dl"
      "list_all (bfKind ?skip) dl" by (auto simp: extends_def)
    then have "since w (logger Info ''Backfill completed'' (snd ?R)) = dl" by (simp add: since_def)
    then show ?thesis
      using dl(2) a(1) commitDates_offWeekend [of dl] written_offWeekend [of dl] by simp
  qed
  have tot: "totalDays (fst ?R) + skippedDays (fst ?R) = nat (e - s + 1)"
    using L d by (simp add: algebra_simps)
  have sk: "skippedDays (fst ?R) = (if ?skip then length (filter weekendDay [s..e]) else 0)"
    using L d by simp
  have cm: "unitRandoms w \<and> 0 \<le> m \<and> ?mn = m \<and> ?mx = m \<longrightarrow>
      int (totalCommits (fst ?R)) + int (errors (fst ?R)) = m * int (totalDays (fst ?R))"
  proof
    assume a: "unitRandoms w \<and> 0 \<le> m \<and> ?mn = m \<and> ?mx = m"
    then have "totalCommits (fst ?R) + errors (fst ?R) = nat m * totalDays (fst ?R)"
      using L u by simp
    then have "int (totalCommits (fst ?R) + errors (fst ?R)) = int (nat m * totalDays (fst ?R))"
      by simp
    then show "int (totalCommits (fst ?R)) + int (errors (fst ?R)) = m * int (totalDays (fst ?R))"
      using a by simp
  qed
  have er: "allOk w \<longrightarrow> errors (fst ?R) = 0"
    using L u by simp
  show ?thesis
    unfolding eq using tot sk wk cm er by auto
qed

text \<open>
  The example of the specification, in a zone with a fixed offset: two commits a day
  over three days give three days and six commits; over a week with the weekends
  skipped, five days, ten commits and two days skipped.
\<close>

theorem backfill_counts_example:
  "unitRandoms quietWorld \<and> allOk quietWorld \<and> plainDays (localZone quietWorld) 19723 19729 \<and>
   (\<exists>st w'. backfillContributions defaultConfig (momentOfDate (localZone quietWorld) 19723)
        (momentOfDate (localZone quietWorld) 19725) twoADay quietWorld = (Inr st, w') \<and>
      totalDays st = 3 \<and> totalCommits st = 6 \<and> skippedDays st = 0) \<and>
   (\<exists>st w'. backfillContributions defaultConfig (momentOfDate (localZone quietWorld) 19723)
        (momentOfDate (localZone quietWorld) 19729) twoAWeekday quietWorld = (Inr st, w') \<and>
      totalDays st = 5 \<and> totalCommits st = 10 \<and> skippedDays st = 2 \<and>
      (\<forall>x \<in> set (commitDates (since quietWorld w')). \<not> weekendDay (sday x)))"
proof -
  have u: "unitRandoms quietWorld"
    by (simp add: unitRandoms_def quietWorld_def ready_def zeros_def)
  have a: "allOk quietWorld"
    by (simp add: allOk_def quietWorld_def ready_def allSucceed_def)
  have z: "plainDays (localZone quietWorld) s e" for s e
    by (simp add: plainDays_def quietWorld_def ready_def)
  have o1: "\<not> nullish (o_skipWeekends twoADay) (backfill_skipWeekends defaultConfig)"
    "nullish (o_minCommits twoADay) (backfill_minCommits defaultConfig) = 2"
    "nullish (o_maxCommits twoADay) (backfill_maxCommits defaultConfig) = 2"
    by (simp_all add: nullish_def twoADay_def)
  have o2: "nullish (o_skipWeekends twoAWeekday) (backfill_skipWeekends defaultConfig)"
    "nullish (o_minCommits twoAWeekday) (backfill_minCommits defaultConfig) = 2"
    "nullish (o_maxCommits twoAWeekday) (backfill_maxCommits defaultConfig) = 2"
    by (simp_all add: nullish_def twoAWeekday_def)
  have f: "length (filter weekendDay [19723..19729]) = 2"
    by (simp add: weekendDay_def upto_rec1)
  from backfill_counts [OF z [of 19723 19725], where cfg = defaultConfig and opts = twoADay and m = 2] u a o1
  have A: "\<exists>st w'. backfillContributions defaultConfig (momentOfDate (localZone quietWorld) 19723)
        (momentOfDate (localZone quietWorld) 19725) twoADay quietWorld = (Inr st, w') \<and>
      totalDays st = 3 \<and> totalCommits st = 6 \<and> skippedDays st = 0"
    by auto
  from backfill_counts [OF z [of 19723 19729], where cfg = defaultConfig and opts = twoAWeekday and m = 2] u a o2 f
  have B: "\<exists>st w'. backfillContributions defaultConfig (momentOfDate (localZone quietWorld) 19723)
        (momentOfDate (localZone quietWorld) 19729) twoAWeekday quietWorld = (Inr st, w') \<and>
      totalDays st = 5 \<and> totalCommits st = 10 \<and> skippedDays st = 2 \<and>
      (\<forall>x \<in> set (commitDates (since quietWorld w')). \<not> weekendDay (sday x))"
    by auto
  from u a z A B show ?thesis by blast
qed

lemma backfillLoop_step:
  assumes "isSameOrBefore cur endD" and "\<not> (skip \<and> weekendDay (mday cur))"
    and "allOk w" and "unitRandoms w" and "0 \<le> m"
  shows "\<exists>st1 w1. backfillLoop cfg z skip m m endD cur st0 w =
             backfillLoop cfg z skip m m endD (addDays z 1 cur) st1 w1 \<and>
           allOk w1 \<and> unitRandoms w1 \<and>
           totalDays st1 = totalDays st0 + 1 \<and> skippedDays st1 = skippedDays st0 \<and>
           totalCommits st1 = totalCommits st0 + nat m \<and> errors st1 = errors st0"
proof -
  obtain k w1 where rc: "randomCount m m w = (k, w1)" by (cases "randomCount m m w")
  have k: "k = m" using randomCount_fixed [OF assms(4), of m m] rc by simp
  let ?w1 = "logger Info ''Processing day'' w1"
  obtain st1 w2 where bd: "backfillDay cfg z cur (nat k) st0 ?w1 = (st1, w2)"
    by (cases "backfillDay cfg z cur (nat k) st0 ?w1")
  let ?st = "st1\<lparr>totalDays := totalDays st1 + 1\<rparr>"
  let ?w = "if (totalDays st1 + 1) mod 7 = 0 then logger Info ''Backfill progress'' w2 else w2"
  have eq: "backfillLoop cfg z skip m m endD cur st0 w =
      backfillLoop cfg z skip m m endD (addDays z 1 cur) ?st ?w"
    using assms(1,2) rc bd by (rule backfillLoop_day)
  have e1: "extends (\<lambda>e. True) w w1"
    using extends_randomCount [of "\<lambda>e. True" w m m] rc by simp
  have e2: "extends (\<lambda>e. True) w1 ?w1" by (rule extends_logger) simp
  have e3: "extends (\<lambda>e. True) ?w1 w2"
    using backfillDay_extends [where P = "\<lambda>e. True" and w = ?w1 and current = cur and cfg = cfg
        and z = z and k = "nat k" and ?st0.0 = st0] bd by simp
  have e4: "extends (\<lambda>e. True) w2 ?w"
    by (auto simp: extends_refl intro!: extends_logger)
  have e12: "extends (\<lambda>e. True) w ?w1" using e1 e2 by (rule extends_trans)
  have ew: "extends (\<lambda>e. True) w ?w" using e12 e3 e4 by (blast intro: extends_trans)
  have ok1: "allOk ?w1" using e12 assms(3) by (simp add: extends_allOk)
  have ok: "allOk ?w" "unitRandoms ?w"
    using ew assms(3,4) by (simp_all add: extends_allOk extends_unitRandoms)
  have s: "totalDays st1 = totalDays st0" "skippedDays st1 = skippedDays st0"
    using backfillDay_stats [of cfg z cur "nat k" st0 ?w1] bd by simp_all
  have er: "errors st1 = errors st0"
    using backfillDay_errors [OF ok1, of cfg z cur "nat k" st0] bd by simp
  have "totalCommits st1 + errors st1 = totalCommits st0 + errors st0 + nat k"
    using backfillDay_attempts [of cfg z cur "nat k" st0 ?w1] bd by simp
  then have tc: "totalCommits st1 = totalCommits st0 + nat m" using er k by simp
  show ?thesis
    using eq ok s er tc by (intro exI [of _ ?st] exI [of _ ?w]) simp
qed

lemma gapWorld_ok: "allOk gapWorld \<and> unitRandoms gapWorld \<and> localZone gapWorld = midnightGap"
  by (simp add: allOk_def unitRandoms_def gapWorld_def ready_def allSucceed_def zeros_def)

text \<open>
  C6, where the zone skips the midnight of a day of the range. In the zone of Cairo the
  clocks go from 00:00 to 01:00 on 2024-04-26 (day 19839). A backfill from 2024-04-25,
  a Thursday, to 2024-04-27, a Saturday, handles Thursday and Friday only:
  \<open>current.add(1, "day")\<close> lands on 01:00 of Friday and stays at 01:00, so that on
  Saturday \<open>current\<close> is after \<open>end\<close> and the loop ends before that day. The statistics
  have \<open>totalDays + skippedDays = 2\<close> for a range of three days: with \<open>skipWeekends\<close> the
  Saturday is not counted in \<open>skippedDays\<close>, and without it two commits a day over the
  three days give two days and four commits.
\<close>

theorem backfill_midnight_skipped:
  "fst (backfillContributions defaultConfig (momentOfDate (localZone gapWorld) 19838)
          (momentOfDate (localZone gapWorld) 19840) twoAWeekday gapWorld) =
     Inr \<lparr>totalDays = 2, totalCommits = 4, skippedDays = 0, errors = 0\<rparr> \<and>
   fst (backfillContributions defaultConfig (momentOfDate (localZone gapWorld) 19838)
          (momentOfDate (localZone gapWorld) 19840) twoADay gapWorld) =
     Inr \<lparr>totalDays = 2, totalCommits = 4, skippedDays = 0, errors = 0\<rparr> \<and>
   filter weekendDay [19838..19840] = [19840] \<and> nat (19840 - 19838 + 1) = 3"
proof -
  let ?z = "midnightGap"
  let ?e = "\<lparr>mday = 19840, mms = 0\<rparr>"
  let ?c0 = "\<lparr>mday = 19838, mms = 0\<rparr>"
  let ?c1 = "\<lparr>mday = 19839, mms = 3600000\<rparr>"
  let ?c2 = "\<lparr>mday = 19840, mms = 3600000\<rparr>"
  let ?st0 = "\<lparr>totalDays = 0, totalCommits = 0, skippedDays = 0, errors = 0\<rparr>"
  let ?w0 = "logger Info ''Starting backfill operation'' gapWorld"
  have md: "momentOfDate ?z 19838 = ?c0" "momentOfDate ?z 19840 = ?e"
    by (simp_all add: momentOfDate_def resolveLocal_def midnightGap_def)
  have a1: "addDays ?z 1 ?c0 = ?c1"
    by (simp add: addDays_def resolveLocal_def midnightGap_def atMillis_def)
  have a2: "addDays ?z 1 ?c1 = ?c2"
    by (simp add: addDays_def resolveLocal_def midnightGap_def)
  have b: "isSameOrBefore ?c0 ?e" "isSameOrBefore ?c1 ?e" "\<not> isSameOrBefore ?c2 ?e"
    by (simp_all add: isSameOrBefore_def)
  have wd: "\<not> weekendDay 19838" "\<not> weekendDay 19839" "weekendDay 19840"
    by (simp_all add: weekendDay_def)
  have ok0: "allOk ?w0" "unitRandoms ?w0"
    using gapWorld_ok by (simp_all add: allOk_def unitRandoms_def logger_def emit_def)
  have run: "fst (backfillLoop defaultConfig ?z skip 2 2 ?e ?c0 ?st0 ?w0) =
      \<lparr>totalDays = 2, totalCommits = 4, skippedDays = 0, errors = 0\<rparr>" for skip
  proof -
    from backfillLoop_step [OF b(1) _ ok0, of skip 2 defaultConfig ?z ?st0] wd obtain st1 w1 where
      1: "backfillLoop defaultConfig ?z skip 2 2 ?e ?c0 ?st0 ?w0 =
            backfillLoop defaultConfig ?z skip 2 2 ?e ?c1 st1 w1"
         "allOk w1" "unitRandoms w1" "totalDays st1 = 1" "skippedDays st1 = 0"
         "totalCommits st1 = 2" "errors st1 = 0"
      unfolding a1 by auto
    from backfillLoop_step [OF b(2) _ 1(2,3), of skip 2 defaultConfig ?z st1] wd obtain st2 w2 where
      2: "backfillLoop defaultConfig ?z skip 2 2 ?e ?c1 st1 w1 =
            backfillLoop defaultConfig ?z skip 2 2 ?e ?c2 st2 w2"
         "totalDays st2 = 2" "skippedDays st2 = 0" "totalCommits st2 = 4" "errors st2 = 0"
      unfolding a2 using 1 by auto
    have 3: "backfillLoop defaultConfig ?z skip 2 2 ?e ?c2 st2 w2 = (st2, w2)"
      using b(3) by (rule backfillLoop_done)
    show ?thesis unfolding 1(1) 2(1) 3 using 2 by simp
  qed
  have r: "fst (backfillContributions defaultConfig ?c0 ?e opts gapWorld) =
      Inr (fst (backfillLoop defaultConfig ?z (nullish (o_skipWeekends opts) (backfill_skipWeekends defaultConfig))
        (nullish (o_minCommits opts) (backfill_minCommits defaultConfig))
        (nullish (o_maxCommits opts) (backfill_maxCommits defaultConfig)) ?e ?c0 ?st0 ?w0))" for opts
    using gapWorld_ok by (simp add: backfillContributions_def Let_def split: prod.splits)
  have o: "nullish (o_minCommits twoADay) (backfill_minCommits defaultConfig) = 2"
    "nullish (o_maxCommits twoADay) (backfill_maxCommits defaultConfig) = 2"
    "nullish (o_minCommits twoAWeekday) (backfill_minCommits defaultConfig) = 2"
    "nullish (o_maxCommits twoAWeekday) (backfill_maxCommits defaultConfig) = 2"
    by (simp_all add: nullish_def twoADay_def twoAWeekday_def)
  have f: "filter weekendDay [19838..19840] = [19840]"
    using wd by (simp add: upto_rec1)
  show ?thesis
    using gapWorld_ok md r [of twoADay] r [of twoAWeekday] o run f by simp
qed

end
